theory Spec2Isabelle
  imports Complex_Main "HOL-Library.Word"
begin

section \<open>Python values and errors\<close>

text \<open>
  Exceptions of the training script are values: every operation that can raise returns
  \<open>py_error + 'a\<close>, with \<open>Inl\<close> for the exception.  A Python string is the list of
  its Unicode code points, which is what \<open>len\<close> counts and what \<open>chr\<close> produces.
\<close>

datatype py_error =
  ValueError | IndexError | ZeroDivisionError | RuntimeError | CudaError
  | NonTermination \<comment> \<open>not an exception: the call never returns\<close>

type_synonym py_str = "nat list"

definition chr_py :: "int \<Rightarrow> py_error + py_str" where
  \<comment> \<open>Python's \<open>chr\<close>: defined on \<open>range(0x110000)\<close>, ValueError elsewhere.\<close>
  "chr_py i = (if 0 \<le> i \<and> i < 0x110000 then Inr [nat i] else Inl ValueError)"

fun map_py :: "('a \<Rightarrow> py_error + 'b) \<Rightarrow> 'a list \<Rightarrow> py_error + 'b list" where
  \<comment> \<open>\<open>list(map(f, xs))\<close>: the first exception aborts the traversal.\<close>
  "map_py f [] = Inr []"
| "map_py f (x # xs) =
     (case f x of
        Inl e \<Rightarrow> Inl e
      | Inr y \<Rightarrow> (case map_py f xs of Inl e \<Rightarrow> Inl e | Inr ys \<Rightarrow> Inr (y # ys)))"

definition slice_index :: "nat \<Rightarrow> int \<Rightarrow> nat" where
  \<comment> \<open>How a slice bound is clamped into \<open>0..n\<close>; a negative bound counts from the end.\<close>
  "slice_index n i = (if i < 0 then nat (max 0 (int n + i)) else min n (nat i))"

definition py_slice :: "'a list \<Rightarrow> int \<Rightarrow> int \<Rightarrow> 'a list" where
  \<comment> \<open>\<open>xs[a:b]\<close>\<close>
  "py_slice xs a b =
     (let lo = slice_index (length xs) a; hi = slice_index (length xs) b
      in take (hi - lo) (drop lo xs))"

section \<open>Constants of the script\<close>

definition NUM_BATCHES :: nat where "NUM_BATCHES = 100000"
definition BATCH_SIZE :: nat where "BATCH_SIZE = 4"
definition GRAD_ACCUM_EVERY :: nat where "GRAD_ACCUM_EVERY = 4"
definition LEARNING_RATE :: real where "LEARNING_RATE = 1 / 10000"
definition VALIDATE_EVERY :: nat where "VALIDATE_EVERY = 100"
definition PRIME_LENGTH :: nat where "PRIME_LENGTH = 128"
definition GENERATE_EVERY :: nat where "GENERATE_EVERY = 500"
definition GENERATE_LENGTH :: nat where "GENERATE_LENGTH = 512"
definition SEQ_LEN :: nat where "SEQ_LEN = 512"
definition GAMMA :: nat where "GAMMA = 5"
definition EARLY_EXIT_LOSS_WEIGHT :: real where "EARLY_EXIT_LOSS_WEIGHT = 1.0"

definition DEVICE_STR :: "bool \<Rightarrow> string" where
  \<comment> \<open>The argument is \<open>torch.cuda.is_available()\<close>.\<close>
  "DEVICE_STR cuda_is_available = (if cuda_is_available then ''cuda'' else ''cpu'')"

section \<open>Helpers\<close>

definition decode_token :: "int \<Rightarrow> py_error + py_str" where
  "decode_token token = chr_py (max 32 token)"

definition decode_tokens :: "int list \<Rightarrow> py_error + py_str" where
  "decode_tokens tokens =
     (case map_py decode_token tokens of Inl e \<Rightarrow> Inl e | Inr ss \<Rightarrow> Inr (concat ss))"

subsection \<open>The benchmark wrapper\<close>

text \<open>
  The wrapped function runs in a world that carries the device clock (milliseconds); any
  further state it needs lives in the record's extension.  Whether the machine has CUDA is a
  fact of the machine, passed as a flag.  Every \<open>torch.cuda\<close> operation raises without CUDA.
\<close>

record world =
  clock :: real

datatype event = Event (enable_timing: bool) (stamp: "real option")

definition timer :: "bool \<Rightarrow> py_error + event" where
  \<comment> \<open>\<open>partial(Event, enable_timing=True)\<close>\<close>
  "timer cuda = (if cuda then Inr (Event True None) else Inl CudaError)"

definition record_event :: "bool \<Rightarrow> event \<Rightarrow> 'w world_scheme \<Rightarrow> py_error + event" where
  "record_event cuda ev w =
     (if cuda then Inr (Event (enable_timing ev) (Some (clock w))) else Inl CudaError)"

definition synchronize :: "bool \<Rightarrow> py_error + unit" where
  "synchronize cuda = (if cuda then Inr () else Inl CudaError)"

definition elapsed_time :: "event \<Rightarrow> event \<Rightarrow> py_error + real" where
  "elapsed_time start_event end_event =
     (if enable_timing start_event \<and> enable_timing end_event then
        (case (stamp start_event, stamp end_event) of
           (Some a, Some b) \<Rightarrow> Inr (b - a)
         | _ \<Rightarrow> Inl RuntimeError)
      else Inl RuntimeError)"

definition benchmark ::
  "bool \<Rightarrow> ('a \<Rightarrow> 'w world_scheme \<Rightarrow> (py_error + 'r) \<times> 'w world_scheme) \<Rightarrow>
   'a \<Rightarrow> 'w world_scheme \<Rightarrow> (py_error + ('r \<times> real)) \<times> 'w world_scheme" where
  "benchmark cuda fn args w =
     (case timer cuda of Inl e \<Rightarrow> (Inl e, w) | Inr start_event \<Rightarrow>
      case timer cuda of Inl e \<Rightarrow> (Inl e, w) | Inr end_event \<Rightarrow>
      case record_event cuda start_event w of Inl e \<Rightarrow> (Inl e, w) | Inr start_event \<Rightarrow>
      case fn args w of (Inl e, w1) \<Rightarrow> (Inl e, w1) | (Inr out, w1) \<Rightarrow>
      case record_event cuda end_event w1 of Inl e \<Rightarrow> (Inl e, w1) | Inr end_event \<Rightarrow>
      case synchronize cuda of Inl e \<Rightarrow> (Inl e, w1) | Inr _ \<Rightarrow>
      case elapsed_time start_event end_event of Inl e \<Rightarrow> (Inl e, w1)
      | Inr elapsed_time_ms \<Rightarrow> (Inr (out, elapsed_time_ms), w1))"

definition slow_double :: "int \<Rightarrow> world \<Rightarrow> (py_error + int) \<times> world" where
  \<comment> \<open>A sample function to wrap: doubles its argument and takes three milliseconds.\<close>
  "slow_double x w = (Inr (2 * x), w\<lparr>clock := clock w + 3\<rparr>)"

section \<open>The sampling dataset\<close>

definition randint :: "int \<Rightarrow> int \<Rightarrow> nat \<Rightarrow> py_error + int" where
  \<comment> \<open>\<open>torch.randint(low, high, (1,))\<close>: some value of \<open>[low, high)\<close>, chosen by the
      generator's entropy \<open>r\<close>; an empty range raises.\<close>
  "randint low high r =
     (if high \<le> low then Inl RuntimeError else Inr (low + int r mod (high - low)))"

record TextSamplerDataset =
  data :: "8 word list"
  seq_len :: nat

definition getitem :: "TextSamplerDataset \<Rightarrow> int \<Rightarrow> nat \<Rightarrow> py_error + int list" where
  \<comment> \<open>\<open>__getitem__(self, index)\<close>; \<open>r\<close> is the entropy the random start is drawn from.\<close>
  "getitem self index r =
     (case randint 0 (int (length (data self)) - int (seq_len self)) r of
        Inl e \<Rightarrow> Inl e
      | Inr rand_start \<Rightarrow>
          Inr (map uint (py_slice (data self) rand_start (rand_start + int (seq_len self) + 1))))"

definition len_dataset :: "TextSamplerDataset \<Rightarrow> py_error + nat" where
  \<comment> \<open>\<open>__len__\<close>\<close>
  "len_dataset self =
     (if seq_len self = 0 then Inl ZeroDivisionError
      else Inr (length (data self) div seq_len self))"

section \<open>The torch runtime\<close>

text \<open>
  The state the script mutates: the random generator (a stream of entropy and a cursor), the
  model's parameters and their accumulated gradient, the optimizer's state, the autograd
  mode, the module's train/eval flag, the number of autograd graphs alive, the cursors of the
  two data loaders, and a trace of the optimizer actions and of the periodic triggers.  It
  extends \<open>world\<close>, so that the benchmark wrapper applies to functions on it.
\<close>

datatype action =
  Backward real | ClipGradNorm real | OptimStep | ZeroGrad | Validation | Generation nat nat

record ('p, 'o) torch = world +
  rng :: "nat \<Rightarrow> nat"
  rng_pos :: nat
  params :: 'p
  grad :: "real list option"
  opt_state :: 'o
  grad_enabled :: bool
  training :: bool
  tape :: nat
  train_cursor :: nat
  val_cursor :: nat
  trace :: "action list"

type_synonym ('a, 's) es = "'s \<Rightarrow> (py_error + 'a) \<times> 's"

definition return_es :: "'a \<Rightarrow> ('a, 's) es" where
  "return_es a s = (Inr a, s)"

definition lift_es :: "py_error + 'a \<Rightarrow> ('a, 's) es" where
  "lift_es r s = (r, s)"

definition bind_es :: "('a, 's) es \<Rightarrow> ('a \<Rightarrow> ('b, 's) es) \<Rightarrow> ('b, 's) es" where
  \<comment> \<open>sequencing: an exception of the first statement skips the rest\<close>
  "bind_es m k s = (case m s of (Inl e, s') \<Rightarrow> (Inl e, s') | (Inr a, s') \<Rightarrow> k a s')"

definition draw :: "(nat, ('p, 'o, 'z) torch_scheme) es" where
  \<comment> \<open>the next value of the global random generator\<close>
  "draw s = (Inr (rng s (rng_pos s)), s\<lparr>rng_pos := rng_pos s + 1\<rparr>)"

definition log_action :: "action \<Rightarrow> (unit, ('p, 'o, 'z) torch_scheme) es" where
  "log_action a s = (Inr (), s\<lparr>trace := trace s @ [a]\<rparr>)"

definition set_training :: "bool \<Rightarrow> (unit, ('p, 'o, 'z) torch_scheme) es" where
  \<comment> \<open>\<open>model.train()\<close> and \<open>model.eval()\<close>\<close>
  "set_training b s = (Inr (), s\<lparr>training := b\<rparr>)"

definition record_graph :: "('p, 'o, 'z) torch_scheme \<Rightarrow> ('p, 'o, 'z) torch_scheme" where
  \<comment> \<open>a forward pass builds an autograd graph exactly when gradients are enabled\<close>
  "record_graph s = (if grad_enabled s then s\<lparr>tape := tape s + 1\<rparr> else s)"

definition no_grad_es ::
  "('a, ('p, 'o, 'z) torch_scheme) es \<Rightarrow> ('a, ('p, 'o, 'z) torch_scheme) es" where
  \<comment> \<open>\<open>with torch.no_grad():\<close> the previous mode is restored on exit, also by an exception\<close>
  "no_grad_es m s =
     (case m (s\<lparr>grad_enabled := False\<rparr>) of
        (r, s') \<Rightarrow> (r, s'\<lparr>grad_enabled := grad_enabled s\<rparr>))"

subsection \<open>Differentiable scalars\<close>

text \<open>
  A loss tensor: its value, and its gradient with respect to the parameters when it was
  computed with gradients enabled.  Arithmetic on tensors is linear in the gradient.
\<close>

record scalar =
  item :: real
  grad_fn :: "real list option"

definition s_add :: "scalar \<Rightarrow> scalar \<Rightarrow> scalar" where
  "s_add a b =
     \<lparr>item = item a + item b,
      grad_fn = (case (grad_fn a, grad_fn b) of
                   (Some x, Some y) \<Rightarrow> Some (map2 (+) x y)
                 | (Some x, None) \<Rightarrow> Some x
                 | (None, Some y) \<Rightarrow> Some y
                 | (None, None) \<Rightarrow> None)\<rparr>"

definition s_mul :: "scalar \<Rightarrow> real \<Rightarrow> scalar" where
  "s_mul a c = \<lparr>item = item a * c, grad_fn = map_option (map (\<lambda>x. x * c)) (grad_fn a)\<rparr>"

definition s_div :: "scalar \<Rightarrow> real \<Rightarrow> scalar" where
  "s_div a c = \<lparr>item = item a / c, grad_fn = map_option (map (\<lambda>x. x / c)) (grad_fn a)\<rparr>"

definition accumulate :: "real list option \<Rightarrow> real list \<Rightarrow> real list" where
  \<comment> \<open>a gradient added to the accumulated one; there is none after \<open>zero_grad\<close>\<close>
  "accumulate acc g = (case acc of None \<Rightarrow> g | Some a \<Rightarrow> map2 (+) a g)"

definition backward :: "scalar \<Rightarrow> (unit, ('p, 'o, 'z) torch_scheme) es" where
  \<comment> \<open>\<open>x.backward()\<close>: adds the gradient of \<open>x\<close> to the accumulated one and frees the graph\<close>
  "backward x s =
     (case grad_fn x of
        None \<Rightarrow> (Inl RuntimeError, s)
      | Some g \<Rightarrow>
          (Inr (),
           s\<lparr>grad := Some (accumulate (grad s) g),
             tape := tape s - 1,
             trace := trace s @ [Backward (item x)]\<rparr>))"

definition total_norm :: "real list \<Rightarrow> real" where
  "total_norm g = sqrt (sum_list (map (\<lambda>x. x * x) g))"

definition clip_coef :: "real \<Rightarrow> real list \<Rightarrow> real" where
  "clip_coef max_norm g = min (max_norm / (total_norm g + 1 / 1000000)) 1"

definition clip_grad_norm :: "real \<Rightarrow> (unit, ('p, 'o, 'z) torch_scheme) es" where
  \<comment> \<open>\<open>torch.nn.utils.clip_grad_norm_(model.parameters(), max_norm)\<close>\<close>
  "clip_grad_norm max_norm s =
     (Inr (),
      s\<lparr>grad := map_option (\<lambda>g. map (\<lambda>x. x * clip_coef max_norm g) g) (grad s),
        trace := trace s @ [ClipGradNorm max_norm]\<rparr>)"

definition zero_grad :: "(unit, ('p, 'o, 'z) torch_scheme) es" where
  \<comment> \<open>\<open>optim.zero_grad()\<close>\<close>
  "zero_grad s = (Inr (), s\<lparr>grad := None, trace := trace s @ [ZeroGrad]\<rparr>)"

section \<open>The model and the two decoders\<close>

text \<open>
  Modelled from the spec: the module \<open>speculative_decoding\<close> (the class \<open>Decoder\<close> and the
  functions \<open>base_decoding\<close> and \<open>speculative_decoding_with_same_model\<close>) is imported by the
  script but is not among the sources.  Everything in this section follows the spec's
  sections 4.1, 4.3, 4.4, 5, 6 and 7.

  The model is an opaque scoring function: for the parameters and a token sequence it gives
  the next-token logits of the full depth and of the early exit, and in loss mode the two
  mean cross-entropy losses, each with its gradient.
\<close>

record ('p, 't) Decoder =
  vocab :: "'t list"
  full_logits :: "'p \<Rightarrow> 't list \<Rightarrow> 't \<Rightarrow> real"
  early_exit_logits :: "'p \<Rightarrow> 't list \<Rightarrow> 't \<Rightarrow> real"
  loss_fn :: "'p \<Rightarrow> 't list list \<Rightarrow> (real \<times> real list) \<times> (real \<times> real list)"

text \<open>
  Modelled from the spec: the sampling configuration (temperature, top-k, top-p) is what
  turns a vector of logits into the probabilities the next token is drawn from; both
  decoders consume it identically.
\<close>

type_synonym 't sampling_config = "('t \<Rightarrow> real) \<Rightarrow> 't \<Rightarrow> real"

definition model_loss ::
  "('p, 't) Decoder \<Rightarrow> 't list list \<Rightarrow> (scalar \<times> scalar, ('p, 'o, 'z) torch_scheme) es" where
  \<comment> \<open>Modelled from the spec: \<open>model(data, return_loss=True)\<close>; a sequence shorter than two
      tokens is rejected, and the losses carry gradients only when gradients are enabled.\<close>
  "model_loss M batch s =
     (if list_ex (\<lambda>x. length x < 2) batch then (Inl ValueError, s)
      else
        (case loss_fn M (params s) batch of
           ((full_loss, d_full), (early_exit_loss, d_early)) \<Rightarrow>
             (Inr (\<lparr>item = full_loss,
                     grad_fn = (if grad_enabled s then Some d_full else None)\<rparr>,
                   \<lparr>item = early_exit_loss,
                     grad_fn = (if grad_enabled s then Some d_early else None)\<rparr>),
              record_graph s)))"

subsection \<open>Randomised computations\<close>

text \<open>
  A randomised computation on a state lists its possible runs: the result, the state it
  leaves, and the probability of the run.  The probability of an event is the sum of the
  probabilities of the runs in which it holds; \<open>ev\<close> is the expectation of a function of
  the result.
\<close>

type_synonym ('a, 's) rand = "'s \<Rightarrow> (('a \<times> 's) \<times> real) list"

definition return_r :: "'a \<Rightarrow> ('a, 's) rand" where
  "return_r a s = [((a, s), 1)]"

definition bind_r :: "('a, 's) rand \<Rightarrow> ('a \<Rightarrow> ('b, 's) rand) \<Rightarrow> ('b, 's) rand" where
  "bind_r m k s =
     concat (map (\<lambda>((a, s'), w). map (\<lambda>(bs, w'). (bs, w * w')) (k a s')) (m s))"

definition multinomial :: "'t list \<Rightarrow> ('t \<Rightarrow> real) \<Rightarrow> ('t, 's) rand" where
  \<comment> \<open>draws a token of the vocabulary \<open>V\<close> with the probabilities \<open>pr\<close>\<close>
  "multinomial V pr s = map (\<lambda>t. ((t, s), pr t)) V"

definition bernoulli :: "real \<Rightarrow> (bool, 's) rand" where
  \<comment> \<open>the event \<open>r \<le> a\<close> of a uniform draw \<open>r\<close> from the unit interval\<close>
  "bernoulli a s = [((True, s), a), ((False, s), 1 - a)]"

definition expect :: "('x \<times> real) list \<Rightarrow> ('x \<Rightarrow> real) \<Rightarrow> real" where
  "expect d g = sum_list (map (\<lambda>(x, w). w * g x) d)"

definition ev :: "(('a \<times> 's) \<times> real) list \<Rightarrow> ('a \<Rightarrow> real) \<Rightarrow> real" where
  "ev d h = expect d (\<lambda>x. h (fst x))"

definition all_outcomes :: "('x \<Rightarrow> bool) \<Rightarrow> ('x \<times> real) list \<Rightarrow> bool" where
  "all_outcomes P d = list_all (\<lambda>(x, w). P x) d"

definition stateless :: "('a, 's) rand \<Rightarrow> 's \<Rightarrow> bool" where
  "stateless m s = all_outcomes (\<lambda>x. snd x = s) (m s)"

definition is_pmf :: "'t list \<Rightarrow> ('t \<Rightarrow> real) \<Rightarrow> bool" where
  "is_pmf V pr = (list_all (\<lambda>t. 0 \<le> pr t) V \<and> sum_list (map pr V) = 1)"

definition no_grad ::
  "('a, ('p, 'o, 'z) torch_scheme) rand \<Rightarrow> ('a, ('p, 'o, 'z) torch_scheme) rand" where
  \<comment> \<open>Modelled from the spec: generation runs under a read-only/no-gradient mode.\<close>
  "no_grad m s =
     map (\<lambda>((a, s'), w). ((a, s'\<lparr>grad_enabled := grad_enabled s\<rparr>), w))
       (m (s\<lparr>grad_enabled := False\<rparr>))"

subsection \<open>Forward passes\<close>

definition forward_full ::
  "('p, 't) Decoder \<Rightarrow> 't list \<Rightarrow> ('t \<Rightarrow> real, ('p, 'o, 'z) torch_scheme) rand" where
  \<comment> \<open>Modelled from the spec: the full-depth logits at the last position\<close>
  "forward_full M S s = [((full_logits M (params s) S, record_graph s), 1)]"

definition forward_early_exit ::
  "('p, 't) Decoder \<Rightarrow> 't list \<Rightarrow> ('t \<Rightarrow> real, ('p, 'o, 'z) torch_scheme) rand" where
  \<comment> \<open>Modelled from the spec: the early-exit logits at the last position\<close>
  "forward_early_exit M S s = [((early_exit_logits M (params s) S, record_graph s), 1)]"

definition forward_verify ::
  "('p, 't) Decoder \<Rightarrow> 't list \<Rightarrow> 't list \<Rightarrow>
   (('t \<Rightarrow> real) list \<times> ('t \<Rightarrow> real), ('p, 'o, 'z) torch_scheme) rand" where
  \<comment> \<open>Modelled from the spec: one full-depth pass over the sequence and the draft tokens,
      giving the full-depth logits at each draft position and at the position after the
      last draft token\<close>
  "forward_verify M S xs s =
     [(((map (\<lambda>i. full_logits M (params s) (S @ take i xs)) [0..<length xs],
         full_logits M (params s) (S @ xs)),
        record_graph s), 1)]"

subsection \<open>Base decoding\<close>

fun base_loop ::
  "('p, 't) Decoder \<Rightarrow> 't sampling_config \<Rightarrow> nat \<Rightarrow> 't list \<Rightarrow>
   ('t list, ('p, 'o, 'z) torch_scheme) rand" where
  \<comment> \<open>Modelled from the spec: forward, sample from the last position, append; one token a
      round, so the count is the number of tokens still missing\<close>
  "base_loop M cfg 0 S = return_r S"
| "base_loop M cfg (Suc n) S =
     bind_r (forward_full M S) (\<lambda>logits.
     bind_r (multinomial (vocab M) (cfg logits)) (\<lambda>t.
     base_loop M cfg n (S @ [t])))"

definition base_decode ::
  "('p, 't) Decoder \<Rightarrow> 't list \<Rightarrow> nat \<Rightarrow> 't sampling_config \<Rightarrow>
   ('t list, ('p, 'o, 'z) torch_scheme) rand" where
  \<comment> \<open>Modelled from the spec: \<open>base_decode(model, prompt, length, sampling_config)\<close>\<close>
  "base_decode M prompt len cfg = no_grad (base_loop M cfg (len - length prompt) prompt)"

subsection \<open>Speculative decoding with the early exit as the draft model\<close>

fun draft ::
  "('p, 't) Decoder \<Rightarrow> 't sampling_config \<Rightarrow> nat \<Rightarrow> 't list \<Rightarrow>
   (('t \<times> ('t \<Rightarrow> real)) list, ('p, 'o, 'z) torch_scheme) rand" where
  \<comment> \<open>Modelled from the spec: the draft phase; each step records the sampled token and the
      early-exit probabilities it was drawn from\<close>
  "draft M cfg 0 S = return_r []"
| "draft M cfg (Suc g) S =
     bind_r (forward_early_exit M S) (\<lambda>logits.
     bind_r (multinomial (vocab M) (cfg logits)) (\<lambda>t.
     bind_r (draft M cfg g (S @ [t])) (\<lambda>rest.
     return_r ((t, cfg logits) # rest))))"

definition accept_prob :: "real \<Rightarrow> real \<Rightarrow> real" where
  \<comment> \<open>Modelled from the spec: accept when \<open>r \<le> p / q\<close> capped at 1; a draft probability
      of zero is an automatic rejection, never a division by zero\<close>
  "accept_prob p q = (if q = 0 then 0 else min 1 (p / q))"

definition residual :: "'t list \<Rightarrow> ('t \<Rightarrow> real) \<Rightarrow> ('t \<Rightarrow> real) \<Rightarrow> 't \<Rightarrow> real" where
  \<comment> \<open>Modelled from the spec: \<open>max(0, p - q)\<close> renormalised\<close>
  "residual V p q t = max 0 (p t - q t) / sum_list (map (\<lambda>u. max 0 (p u - q u)) V)"

fun accept_reject ::
  "'t list \<Rightarrow> (('t \<times> ('t \<Rightarrow> real)) \<times> ('t \<Rightarrow> real)) list \<Rightarrow> ('t \<Rightarrow> real) \<Rightarrow>
   ('t list, 's) rand" where
  \<comment> \<open>Modelled from the spec: left to right; the first rejection ends the block with a token
      resampled from the residual; a block accepted whole is followed by a bonus token
      from the full model.  The result is what the block appends.\<close>
  "accept_reject V [] p_next = bind_r (multinomial V p_next) (\<lambda>t. return_r [t])"
| "accept_reject V (((x, q), p) # rest) p_next =
     bind_r (bernoulli (accept_prob (p x) (q x))) (\<lambda>accepted.
     if accepted then bind_r (accept_reject V rest p_next) (\<lambda>e. return_r (x # e))
     else bind_r (multinomial V (residual V p q)) (\<lambda>t. return_r [t]))"

definition speculative_step ::
  "('p, 't) Decoder \<Rightarrow> 't sampling_config \<Rightarrow> nat \<Rightarrow> 't list \<Rightarrow>
   ('t list, ('p, 'o, 'z) torch_scheme) rand" where
  \<comment> \<open>Modelled from the spec: one outer step with \<open>g\<close> draft tokens\<close>
  "speculative_step M cfg g S =
     bind_r (draft M cfg g S) (\<lambda>drafts.
     bind_r (forward_verify M S (map fst drafts)) (\<lambda>(logits, logits_next).
     accept_reject (vocab M) (zip drafts (map cfg logits)) (cfg logits_next)))"

definition average :: "nat \<Rightarrow> nat \<Rightarrow> real" where
  \<comment> \<open>Modelled from the spec: the accepted tokens per block, a simple average across
      blocks (zero when no block ran)\<close>
  "average total_accepted num_steps =
     (if num_steps = 0 then 0 else real total_accepted / real num_steps)"

fun speculative_loop ::
  "('p, 't) Decoder \<Rightarrow> 't sampling_config \<Rightarrow> nat \<Rightarrow> nat \<Rightarrow> nat \<Rightarrow> 't list \<Rightarrow> nat \<Rightarrow> nat \<Rightarrow>
   ('t list \<times> real, ('p, 'o, 'z) torch_scheme) rand" where
  \<comment> \<open>Modelled from the spec: repeat until the target length is reached; the draft block is
      truncated so that the block, with its resampled or bonus token, never overshoots.
      The loop is bounded by fuel; a block appends at least one token, so the number of
      missing tokens is fuel enough.\<close>
  "speculative_loop M cfg gamma len 0 S total_accepted num_steps =
     return_r (S, average total_accepted num_steps)"
| "speculative_loop M cfg gamma len (Suc fuel) S total_accepted num_steps =
     (if len \<le> length S then return_r (S, average total_accepted num_steps)
      else
        bind_r (speculative_step M cfg (min gamma (len - length S - 1)) S) (\<lambda>e.
        speculative_loop M cfg gamma len fuel (S @ e)
          (total_accepted + (length e - 1)) (num_steps + 1)))"

definition speculative_decode ::
  "('p, 't) Decoder \<Rightarrow> 't list \<Rightarrow> nat \<Rightarrow> nat \<Rightarrow> 't sampling_config \<Rightarrow>
   py_error + ('t list \<times> real, ('p, 'o, 'z) torch_scheme) rand" where
  \<comment> \<open>Modelled from the spec: \<open>speculative_decode(model, prompt, length, gamma,
      sampling_config)\<close>; a non-positive \<open>gamma\<close> fails at call time\<close>
  "speculative_decode M prompt len gamma cfg =
     (if gamma = 0 then Inl ValueError
      else Inr (no_grad (speculative_loop M cfg gamma len (len - length prompt) prompt 0 0)))"

definition target_probs ::
  "('p, 't) Decoder \<Rightarrow> 't sampling_config \<Rightarrow> 'p \<Rightarrow> 't list \<Rightarrow> 't list \<Rightarrow> ('t \<Rightarrow> real) list" where
  \<comment> \<open>the full-depth probabilities at the draft positions, as the verify pass yields them\<close>
  "target_probs M cfg \<theta> S xs = map (\<lambda>i. cfg (full_logits M \<theta> (S @ take i xs))) [0..<length xs]"

subsection \<open>The blocks of a speculative run\<close>

text \<open>
  Modelled from the spec: the outer loop of speculative decoding once more, this time
  returning what each outer step appended, block by block.  It is the reference that the
  returned sequence and the returned average acceptance count are compared with.  A block
  is the draft tokens accepted in it followed by one more token, the resampled or the bonus
  one.
\<close>

definition accepted_in :: "'t list \<Rightarrow> nat" where
  \<comment> \<open>the number of draft tokens accepted in a block\<close>
  "accepted_in e = length e - 1"

fun speculative_blocks ::
  "('p, 't) Decoder \<Rightarrow> 't sampling_config \<Rightarrow> nat \<Rightarrow> nat \<Rightarrow> nat \<Rightarrow> 't list \<Rightarrow>
   ('t list list, ('p, 'o, 'z) torch_scheme) rand" where
  "speculative_blocks M cfg gamma len 0 S = return_r []"
| "speculative_blocks M cfg gamma len (Suc fuel) S =
     (if len \<le> length S then return_r []
      else
        bind_r (speculative_step M cfg (min gamma (len - length S - 1)) S) (\<lambda>e.
        bind_r (speculative_blocks M cfg gamma len fuel (S @ e)) (\<lambda>bs.
        return_r (e # bs))))"

definition sequence_and_average :: "'t list \<Rightarrow> 't list list \<Rightarrow> 't list \<times> real" where
  \<comment> \<open>the prompt followed by the blocks, and the accepted draft tokens per block\<close>
  "sequence_and_average prompt bs =
     (prompt @ concat bs, average (sum_list (map accepted_in bs)) (length bs))"

definition map_outcomes :: "('x \<Rightarrow> 'y) \<Rightarrow> ('x \<times> real) list \<Rightarrow> ('y \<times> real) list" where
  \<comment> \<open>the same runs with the same probabilities, the results mapped\<close>
  "map_outcomes g d = map (\<lambda>(x, w). (g x, w)) d"

definition mass :: "('x \<times> real) list \<Rightarrow> real" where
  \<comment> \<open>the total probability of the runs\<close>
  "mass d = sum_list (map snd d)"

section \<open>The training script\<close>

text \<open>
  What the script builds at module level: whether the machine has CUDA, the model, the Adam
  update of \<open>torch.optim\<close> (learning rate, optimizer state, parameters and gradient to new
  parameters and state), the two splits of the enwik8 bytes, and the default sampling
  configuration of the decoders, which the script does not override.
\<close>

record ('p, 'o) script =
  cuda_is_available :: bool
  model :: "('p, int) Decoder"
  adam :: "real \<Rightarrow> 'o \<Rightarrow> 'p \<Rightarrow> real list \<Rightarrow> 'p \<times> 'o"
  data_train :: "8 word list"
  data_val :: "8 word list"
  sampling_default :: "int sampling_config"

definition train_dataset :: "('p, 'o) script \<Rightarrow> TextSamplerDataset" where
  "train_dataset env = \<lparr>data = data_train env, seq_len = SEQ_LEN\<rparr>"

definition val_dataset :: "('p, 'o) script \<Rightarrow> TextSamplerDataset" where
  "val_dataset env = \<lparr>data = data_val env, seq_len = SEQ_LEN\<rparr>"

subsection \<open>The data loaders\<close>

fun next_items ::
  "TextSamplerDataset \<Rightarrow> nat \<Rightarrow> nat \<Rightarrow> (int list list, ('p, 'o, 'z) torch_scheme) es" where
  \<comment> \<open>the items of \<open>k\<close> consecutive indices, each with a fresh random start\<close>
  "next_items ds index 0 = return_es []"
| "next_items ds index (Suc k) =
     bind_es draw (\<lambda>r.
     bind_es (lift_es (getitem ds (int index) r)) (\<lambda>x.
     bind_es (next_items ds (Suc index) k) (\<lambda>xs.
     return_es (x # xs))))"

definition next_loader ::
  "TextSamplerDataset \<Rightarrow> nat \<Rightarrow> (int list list \<times> nat, ('p, 'o, 'z) torch_scheme) es" where
  \<comment> \<open>\<open>next(cycle(DataLoader(ds, batch_size = BATCH_SIZE)))\<close> with the loader at \<open>cursor\<close>:
      the batch and the new cursor.  The last batch of a pass is the shorter one; over an
      empty dataset \<open>cycle\<close> never yields.\<close>
  "next_loader ds cursor =
     bind_es (lift_es (len_dataset ds)) (\<lambda>n.
     if n = 0 then lift_es (Inl NonTermination)
     else
       bind_es (next_items ds cursor (min BATCH_SIZE (n - cursor))) (\<lambda>batch.
       return_es (batch, if n \<le> cursor + BATCH_SIZE then 0 else cursor + BATCH_SIZE)))"

definition next_train ::
  "('p, 'o) script \<Rightarrow> (int list list, ('p, 'o, 'z) torch_scheme) es" where
  \<comment> \<open>\<open>next(train_loader)\<close>\<close>
  "next_train env s =
     (case next_loader (train_dataset env) (train_cursor s) s of
        (Inl e, s') \<Rightarrow> (Inl e, s')
      | (Inr (batch, c), s') \<Rightarrow> (Inr batch, s'\<lparr>train_cursor := c\<rparr>))"

definition next_val ::
  "('p, 'o) script \<Rightarrow> (int list list, ('p, 'o, 'z) torch_scheme) es" where
  \<comment> \<open>\<open>next(val_loader)\<close>\<close>
  "next_val env s =
     (case next_loader (val_dataset env) (val_cursor s) s of
        (Inl e, s') \<Rightarrow> (Inl e, s')
      | (Inr (batch, c), s') \<Rightarrow> (Inr batch, s'\<lparr>val_cursor := c\<rparr>))"

subsection \<open>One optimizer step\<close>

definition optim_step :: "('p, 'o) script \<Rightarrow> (unit, ('p, 'o, 'z) torch_scheme) es" where
  \<comment> \<open>\<open>optim.step()\<close>; parameters without a gradient are left alone\<close>
  "optim_step env s =
     (case grad s of
        None \<Rightarrow> (Inr (), s\<lparr>trace := trace s @ [OptimStep]\<rparr>)
      | Some g \<Rightarrow>
          (case adam env LEARNING_RATE (opt_state s) (params s) g of
             (\<theta>, os) \<Rightarrow>
               (Inr (), s\<lparr>params := \<theta>, opt_state := os, trace := trace s @ [OptimStep]\<rparr>)))"

definition backpropagated :: "scalar \<Rightarrow> scalar \<Rightarrow> scalar" where
  \<comment> \<open>\<open>(loss + small_loss * EARLY_EXIT_LOSS_WEIGHT) / GRAD_ACCUM_EVERY\<close>\<close>
  "backpropagated loss small_loss =
     s_div (s_add loss (s_mul small_loss EARLY_EXIT_LOSS_WEIGHT)) (real GRAD_ACCUM_EVERY)"

definition micro_batch ::
  "('p, 'o) script \<Rightarrow> (scalar \<times> scalar, ('p, 'o, 'z) torch_scheme) es" where
  \<comment> \<open>the body of the accumulation loop\<close>
  "micro_batch env =
     bind_es (next_train env) (\<lambda>data.
     bind_es (model_loss (model env) data) (\<lambda>(loss, small_loss).
     bind_es (backward (backpropagated loss small_loss)) (\<lambda>_.
     return_es (loss, small_loss))))"

fun for_range :: "nat \<Rightarrow> ('a, 's) es \<Rightarrow> (unit, 's) es" where
  \<comment> \<open>\<open>for _ in range(n): body\<close>\<close>
  "for_range 0 body = return_es ()"
| "for_range (Suc n) body = bind_es body (\<lambda>_. for_range n body)"

definition train_step :: "('p, 'o) script \<Rightarrow> (unit, ('p, 'o, 'z) torch_scheme) es" where
  \<comment> \<open>the training part of an iteration (the two prints of the last losses left out)\<close>
  "train_step env =
     bind_es (set_training True) (\<lambda>_.
     bind_es (for_range GRAD_ACCUM_EVERY (micro_batch env)) (\<lambda>_.
     bind_es (clip_grad_norm (1 / 2)) (\<lambda>_.
     bind_es (optim_step env) (\<lambda>_.
     zero_grad))))"

subsection \<open>Validation and generation\<close>

definition validation :: "('p, 'o) script \<Rightarrow> (real \<times> real, ('p, 'o, 'z) torch_scheme) es" where
  \<comment> \<open>the body of \<open>if i % VALIDATE_EVERY == 0\<close>; the result is the two losses printed\<close>
  "validation env =
     bind_es (log_action Validation) (\<lambda>_.
     bind_es (set_training False) (\<lambda>_.
     no_grad_es
       (bind_es (next_val env) (\<lambda>valid_data.
        bind_es (model_loss (model env) valid_data) (\<lambda>(loss, small_loss).
        return_es (item loss, item small_loss))))))"

definition random_choice ::
  "TextSamplerDataset \<Rightarrow> (int list, ('p, 'o, 'z) torch_scheme) es" where
  \<comment> \<open>\<open>random.choice(ds)\<close>: a random index below \<open>len(ds)\<close>, then \<open>ds[index]\<close>\<close>
  "random_choice ds =
     bind_es (lift_es (len_dataset ds)) (\<lambda>n.
     if n = 0 then lift_es (Inl IndexError)
     else
       bind_es draw (\<lambda>r.
       bind_es draw (\<lambda>r'.
       lift_es (getitem ds (int (r mod n)) r'))))"

definition pick_run :: "('x \<times> real) list \<Rightarrow> nat \<Rightarrow> py_error + 'x" where
  \<comment> \<open>one of the runs of positive probability, selected by the entropy \<open>r\<close>\<close>
  "pick_run d r =
     (case filter (\<lambda>(x, w). 0 < w) d of
        [] \<Rightarrow> Inl RuntimeError
      | y # ys \<Rightarrow> Inr (fst ((y # ys) ! (r mod length (y # ys)))))"

definition sample_run ::
  "('a, ('p, 'o, 'z) torch_scheme) rand \<Rightarrow> ('a, ('p, 'o, 'z) torch_scheme) es" where
  \<comment> \<open>a call of a randomised function: the global generator settles which run it is\<close>
  "sample_run m =
     bind_es draw (\<lambda>r s.
       case pick_run (m s) r of
         Inl e \<Rightarrow> (Inl e, s)
       | Inr (a, s') \<Rightarrow> (Inr a, s'))"

definition base_decoding ::
  "('p, 'o) script \<Rightarrow> ('p, int) Decoder \<times> int list \<times> nat \<Rightarrow>
   (int list, ('p, 'o, 'z) torch_scheme) es" where
  \<comment> \<open>\<open>base_decoding(model, prompt, GENERATE_LENGTH)\<close>, the sampling arguments defaulted\<close>
  "base_decoding env = (\<lambda>(m, prompt, len).
     sample_run (base_decode m prompt len (sampling_default env)))"

definition speculative_decoding_with_same_model ::
  "('p, 'o) script \<Rightarrow> ('p, int) Decoder \<times> int list \<times> nat \<times> nat \<Rightarrow>
   (int list \<times> real, ('p, 'o, 'z) torch_scheme) es" where
  \<comment> \<open>\<open>speculative_decoding_with_same_model(model, prompt, GENERATE_LENGTH, GAMMA)\<close>\<close>
  "speculative_decoding_with_same_model env = (\<lambda>(m, prompt, len, gamma).
     case speculative_decode m prompt len gamma (sampling_default env) of
       Inl e \<Rightarrow> lift_es (Inl e)
     | Inr run \<Rightarrow> sample_run run)"

record generation_output =
  prime :: py_str
  base_decode_output :: py_str
  spec_decode_output :: py_str
  base_decode_elapsed :: real
  spec_decode_elapsed :: real
  num_accepted :: real

definition generation ::
  "('p, 'o) script \<Rightarrow> (generation_output, ('p, 'o, 'z) torch_scheme) es" where
  \<comment> \<open>the body of \<open>if i % GENERATE_EVERY == 0\<close>; the prompt tensor has a leading batch axis
      of size one, which \<open>sampled[0]\<close> removes again; the result is what is printed\<close>
  "generation env =
     bind_es (set_training False) (\<lambda>_.
     bind_es (random_choice (val_dataset env)) (\<lambda>full_seq.
     let inp = py_slice full_seq 0 (int PRIME_LENGTH) in
     bind_es (lift_es (decode_tokens inp)) (\<lambda>prime_str.
     bind_es (log_action (Generation (length inp) GENERATE_LENGTH)) (\<lambda>_.
     bind_es (benchmark (cuda_is_available env) (base_decoding env)
                (model env, inp, GENERATE_LENGTH)) (\<lambda>(sampled, base_elapsed).
     bind_es (benchmark (cuda_is_available env) (speculative_decoding_with_same_model env)
                (model env, inp, GENERATE_LENGTH, GAMMA))
       (\<lambda>((spec_decode_sampled, accepted), spec_elapsed).
     bind_es (lift_es (decode_tokens sampled)) (\<lambda>base_out.
     bind_es (lift_es (decode_tokens spec_decode_sampled)) (\<lambda>spec_out.
     return_es
       \<lparr>prime = prime_str, base_decode_output = base_out, spec_decode_output = spec_out,
        base_decode_elapsed = base_elapsed, spec_decode_elapsed = spec_elapsed,
        num_accepted = accepted\<rparr>))))))))"

subsection \<open>The loop\<close>

definition iteration :: "('p, 'o) script \<Rightarrow> nat \<Rightarrow> (unit, ('p, 'o, 'z) torch_scheme) es" where
  "iteration env i =
     bind_es (train_step env) (\<lambda>_.
     bind_es (if i mod VALIDATE_EVERY = 0
              then bind_es (validation env) (\<lambda>_. return_es ()) else return_es ()) (\<lambda>_.
     if i mod GENERATE_EVERY = 0
     then bind_es (generation env) (\<lambda>_. return_es ()) else return_es ()))"

fun iterations :: "('p, 'o) script \<Rightarrow> nat \<Rightarrow> nat \<Rightarrow> (unit, ('p, 'o, 'z) torch_scheme) es" where
  \<comment> \<open>the iterations \<open>i, i + 1, \<dots>\<close>, \<open>n\<close> of them\<close>
  "iterations env i 0 = return_es ()"
| "iterations env i (Suc n) = bind_es (iteration env i) (\<lambda>_. iterations env (Suc i) n)"

definition training :: "('p, 'o) script \<Rightarrow> (unit, ('p, 'o, 'z) torch_scheme) es" where
  \<comment> \<open>\<open>for i in range(NUM_BATCHES)\<close>\<close>
  "training env = iterations env 0 NUM_BATCHES"


subsection \<open>What one micro-batch contributes\<close>

definition micro_loss :: "('p, 't) Decoder \<Rightarrow> 'p \<Rightarrow> 't list list \<Rightarrow> real" where
  \<comment> \<open>the value back-propagated for a batch: the combined loss over the number of
      micro-batches\<close>
  "micro_loss M \<theta> batch =
     (case loss_fn M \<theta> batch of
        ((full_loss, d_full), (early_exit_loss, d_early)) \<Rightarrow>
          (full_loss + early_exit_loss * EARLY_EXIT_LOSS_WEIGHT) / real GRAD_ACCUM_EVERY)"

definition micro_grad :: "('p, 't) Decoder \<Rightarrow> 'p \<Rightarrow> 't list list \<Rightarrow> real list" where
  \<comment> \<open>and its gradient\<close>
  "micro_grad M \<theta> batch =
     (case loss_fn M \<theta> batch of
        ((full_loss, d_full), (early_exit_loss, d_early)) \<Rightarrow>
          map (\<lambda>x. x / real GRAD_ACCUM_EVERY)
            (map2 (+) d_full (map (\<lambda>x. x * EARLY_EXIT_LOSS_WEIGHT) d_early)))"

definition clipped :: "real \<Rightarrow> real list \<Rightarrow> real list" where
  "clipped max_norm g = map (\<lambda>x. x * clip_coef max_norm g) g"

definition same_model ::
  "('p, 'o, 'z) torch_scheme \<Rightarrow> ('p, 'o, 'z) torch_scheme \<Rightarrow> bool" where
  \<comment> \<open>nothing of the model or of autograd differs: the parameters, their gradient, the
      optimizer state, the graphs alive and the autograd mode\<close>
  "same_model s s' =
     (params s' = params s \<and> grad s' = grad s \<and> opt_state s' = opt_state s
      \<and> tape s' = tape s \<and> grad_enabled s' = grad_enabled s)"

fun accumulated_from :: "real list option \<Rightarrow> real list list \<Rightarrow> real list option" where
  \<comment> \<open>the accumulated gradient after one \<open>backward\<close> for each gradient of the list\<close>
  "accumulated_from acc [] = acc"
| "accumulated_from acc (g # gs) = accumulated_from (Some (accumulate acc g)) gs"


subsection \<open>A toy model\<close>

text \<open>
  A model over the vocabulary \<open>{0, 1}\<close> whose logits are already probabilities: the full
  depth repeats the last token with probability 3/4 after a 0 and prefers 1 otherwise, the
  early exit is a fair coin.  It instantiates the theorems below.
\<close>

definition toy_model :: "(unit, int) Decoder" where
  "toy_model =
     \<lparr>vocab = [0, 1],
      full_logits = (\<lambda>\<theta> S t. if (S \<noteq> [] \<and> last S = 0) = (t = 0) then 3 / 4 else 1 / 4),
      early_exit_logits = (\<lambda>\<theta> S t. 1 / 2),
      loss_fn = (\<lambda>\<theta> batch. ((1, [1, 0]), (2, [0, 3])))\<rparr>"

definition as_probabilities :: "int sampling_config" where
  "as_probabilities logits = logits"

definition toy_state :: "(unit, unit) torch" where
  "toy_state =
     \<lparr>clock = 0, rng = (\<lambda>n. n), rng_pos = 0, params = (), grad = None, opt_state = (),
      grad_enabled = True, training = True, tape = 0, train_cursor = 0, val_cursor = 0,
      trace = []\<rparr>"

definition token_at :: "nat \<Rightarrow> 't \<Rightarrow> 't list \<Rightarrow> real" where
  \<comment> \<open>the indicator of "the token at position \<open>k\<close> is \<open>t\<close>"\<close>
  "token_at k t S = (if k < length S \<and> S ! k = t then 1 else 0)"

definition toy_script :: "(unit, unit) script" where
  \<comment> \<open>the toy model on a machine with CUDA, an optimizer that leaves the parameters alone,
      and 600 bytes of data in each split\<close>
  "toy_script =
     \<lparr>cuda_is_available = True, model = toy_model, adam = (\<lambda>lr os \<theta> g. (\<theta>, os)),
      data_train = replicate 600 0, data_val = replicate 600 0,
      sampling_default = as_probabilities\<rparr>"

section \<open>Properties of the helpers\<close>

lemma map_py_decode_token:
  "\<forall>t\<in>set tokens. t < 0x110000 \<Longrightarrow>
   map_py decode_token tokens = Inr (map (\<lambda>t. [nat (max 32 t)]) tokens)"
  by (induction tokens) (simp_all add: decode_token_def chr_py_def)

text \<open>
  The tokens the script decodes are bytes of enwik8 or samples of the 256-token vocabulary.
  Beyond the code points, which no call reaches, \<open>chr\<close> raises.
\<close>

lemma decode_tokens_beyond_code_points:
  "decode_tokens [72, 1114112] = Inl ValueError"
  by (simp add: decode_tokens_def decode_token_def chr_py_def)

text \<open>
  C10: for every list of token integers (every token of the script is a byte or an id of
  the 256-token vocabulary, and it is enough that each is a code point, below \<open>0x110000\<close>)
  \<open>decode_tokens\<close> returns a string with one character per token, the character of a
  token \<open>t\<close> being \<open>chr(max(32, t))\<close>, so that every code point of the string is at least
  32 and a token below 32 is rendered as the space.  In particular this holds of every
  list of bytes.
\<close>

theorem decode_tokens_length_and_floor:
  assumes "\<forall>t\<in>set tokens. t < 0x110000"
  shows "(\<exists>s. decode_tokens tokens = Inr s \<and> length s = length tokens
            \<and> s = map (\<lambda>t. nat (max 32 t)) tokens \<and> (\<forall>c\<in>set s. 32 \<le> c))
         \<and> (\<forall>bytes :: 8 word list. \<exists>s. decode_tokens (map uint bytes) = Inr s
               \<and> length s = length bytes \<and> (\<forall>c\<in>set s. 32 \<le> c))"
proof -
  have dec: "decode_tokens ts = Inr (map (\<lambda>t. nat (max 32 t)) ts)"
    if "\<forall>t\<in>set ts. t < 0x110000" for ts
  proof -
    have "decode_tokens ts = Inr (concat (map (\<lambda>t. [nat (max 32 t)]) ts))"
      using map_py_decode_token [OF that] by (simp add: decode_tokens_def)
    moreover have "concat (map (\<lambda>t. [nat (max 32 t)]) ts) = map (\<lambda>t. nat (max 32 t)) ts"
      by (induction ts) simp_all
    ultimately show ?thesis by simp
  qed
  have byte: "uint w < 0x110000" for w :: "8 word"
    using uint_bounded [of w] by simp
  have "\<forall>t\<in>set (map uint bytes). t < 0x110000" for bytes :: "8 word list"
    by (auto simp: byte)
  then have "decode_tokens (map uint bytes) = Inr (map (\<lambda>t. nat (max 32 t)) (map uint bytes))"
    for bytes :: "8 word list"
    by (rule dec)
  then show ?thesis
    using dec [OF assms] by auto
qed

theorem decode_tokens_length_and_floor_witness:
  "list_all (\<lambda>t. t < 0x110000) [-3, 10, 104, 105, 955 :: int]
   \<and> decode_tokens [-3, 10, 104, 105, 955] = Inr [32, 32, 104, 105, 955]
   \<and> decode_tokens (map uint [10, 104, 255 :: 8 word]) = Inr [32, 104, 255]"
proof -
  have "decode_tokens (map uint [10, 104, 255 :: 8 word]) = Inr [32, 104, 255]"
    by (simp add: decode_tokens_def decode_token_def chr_py_def)
  then show ?thesis
    using decode_tokens_length_and_floor [of "[-3, 10, 104, 105, 955]"] by simp
qed

text \<open>
  C5, as stated: for every function and argument the wrapper returns a pair.  On a machine
  without CUDA it raises where the function itself returns.
\<close>

theorem benchmark_raises_without_cuda:
  "fst (slow_double 21 \<lparr>clock = 0\<rparr>) = Inr 42
   \<and> fst (benchmark False slow_double 21 \<lparr>clock = 0\<rparr>) = Inl CudaError"
  by (simp add: benchmark_def timer_def slow_double_def)

text \<open>
  C5, amended: on a machine with CUDA, \<open>benchmark(fn)(args)\<close> runs \<open>fn(args)\<close> once, in the
  world it was called in; when \<open>fn\<close> returns \<open>out\<close> the wrapper returns \<open>out\<close> paired with the
  time elapsed on the device clock, when \<open>fn\<close> raises the wrapper raises the same exception,
  and the world is left as \<open>fn\<close> left it.
\<close>

theorem benchmark_preserves_result:
  assumes "cuda"
  shows "benchmark cuda fn args w =
           (case fn args w of
              (Inl e, w1) \<Rightarrow> (Inl e, w1)
            | (Inr out, w1) \<Rightarrow> (Inr (out, clock w1 - clock w), w1))"
  using assms
  by (simp add: benchmark_def timer_def record_event_def synchronize_def elapsed_time_def
           split: prod.splits sum.splits)

theorem benchmark_preserves_result_witness:
  "benchmark True slow_double 21 \<lparr>clock = 10\<rparr> = (Inr (42, 3), \<lparr>clock = 13\<rparr>)"
  using benchmark_preserves_result [of True slow_double 21 "\<lparr>clock = 10\<rparr>"]
  by (simp add: slow_double_def)

text \<open>
  C9: the wrapper is CUDA-only.  It never consults the device: on a machine without CUDA,
  where \<open>DEVICE_STR\<close> is \<open>cpu\<close>, every wrapped call raises, before the wrapped function has
  run (the world is untouched), whatever the function and its arguments.
\<close>

theorem benchmark_cuda_only:
  "DEVICE_STR False = ''cpu''
   \<and> benchmark False fn args w = (Inl CudaError, w)"
  by (simp add: DEVICE_STR_def benchmark_def timer_def)

section \<open>Properties of the dataset\<close>

lemma py_slice_window:
  assumes "k + n \<le> length xs"
  shows "length (py_slice xs (int k) (int k + int n)) = n"
proof -
  have "slice_index (length xs) (int k) = k"
    using assms by (simp add: slice_index_def)
  moreover have "slice_index (length xs) (int k + int n) = k + n"
    using assms by (simp add: slice_index_def nat_add_distrib)
  ultimately show ?thesis
    using assms by (simp add: py_slice_def)
qed

lemma getitem_window:
  assumes "seq_len self < length (data self)"
  shows "\<exists>full_seq. getitem self index r = Inr full_seq
           \<and> length full_seq = seq_len self + 1
           \<and> list_all (\<lambda>t. 0 \<le> t \<and> t < 256) full_seq"
proof -
  let ?high = "int (length (data self)) - int (seq_len self)"
  define k where "k = nat (int r mod ?high)"
  have pos: "0 < ?high" using assms by simp
  have k: "int k = int r mod ?high"
    using pos by (simp add: k_def)
  have "int r mod ?high < ?high"
    using pos by simp
  then have room: "k + (seq_len self + 1) \<le> length (data self)"
    using k by linarith
  have rand: "randint 0 ?high r = Inr (int k)"
    using pos k by (simp add: randint_def)
  have "length (py_slice (data self) (int k) (int k + int (seq_len self + 1))) = seq_len self + 1"
    by (rule py_slice_window [OF room])
  then have len: "length (py_slice (data self) (int k) (int k + int (seq_len self) + 1))
                  = seq_len self + 1"
    by (simp add: ac_simps)
  have byte: "0 \<le> uint w \<and> uint w < 256" for w :: "8 word"
    using uint_bounded [of w] by simp
  have "list_all (\<lambda>t. 0 \<le> t \<and> t < 256) (map uint ws)" for ws :: "8 word list"
    by (induction ws) (simp_all add: byte)
  then show ?thesis
    using rand len by (simp add: getitem_def)
qed

text \<open>
  C7: whenever the data is longer than \<open>seq_len\<close> (so that the range of the random start,
  \<open>[0, data_size - seq_len)\<close>, is not empty), \<open>__getitem__\<close> returns, for every index and
  every draw, a sequence of exactly \<open>seq_len + 1\<close> tokens: 513 with \<open>SEQ_LEN = 512\<close>.
\<close>

theorem getitem_length:
  assumes "seq_len self < length (data self)"
  shows "(\<exists>full_seq. getitem self index r = Inr full_seq
            \<and> length full_seq = seq_len self + 1)
         \<and> SEQ_LEN + 1 = 513"
  using getitem_window [OF assms, of index r] by (auto simp: SEQ_LEN_def)

theorem getitem_length_witness:
  "seq_len \<lparr>data = [1, 2, 3, 4, 5, 6, 7], seq_len = 3\<rparr>
     < length (data \<lparr>data = [1, 2, 3, 4, 5, 6, 7], seq_len = 3\<rparr>)
   \<and> (\<exists>full_seq. getitem \<lparr>data = [1, 2, 3, 4, 5, 6, 7], seq_len = 3\<rparr> 0 10 = Inr full_seq
         \<and> length full_seq = 4)"
  using getitem_length [of "\<lparr>data = [1, 2, 3, 4, 5, 6, 7], seq_len = 3\<rparr>" 0 10] by simp

section \<open>Properties of randomised computations\<close>

lemma expect_Nil [simp]: "expect [] g = 0"
  by (simp add: expect_def)

lemma expect_Cons [simp]: "expect ((x, w) # d) g = w * g x + expect d g"
  by (simp add: expect_def)

lemma expect_append: "expect (d @ d') g = expect d g + expect d' g"
  by (simp add: expect_def)

lemma expect_scale: "expect (map (\<lambda>(x, w'). (x, w * w')) d) g = w * expect d g"
  by (induction d) (auto simp: algebra_simps)

lemma expect_bind:
  "expect (bind_r m k s) g = expect (m s) (\<lambda>(a, s'). expect (k a s') g)"
proof -
  have "expect (concat (map (\<lambda>((a, s'), w). map (\<lambda>(bs, w'). (bs, w * w')) (k a s')) d)) g
        = expect d (\<lambda>(a, s'). expect (k a s') g)" for d
    by (induction d) (auto simp: expect_append expect_scale)
  then show ?thesis by (simp add: bind_r_def)
qed

lemma expect_return: "expect (return_r a s) g = g (a, s)"
  by (simp add: return_r_def)

lemma expect_multinomial:
  "expect (multinomial V pr s) g = sum_list (map (\<lambda>t. pr t * g (t, s)) V)"
  by (induction V) (simp_all add: multinomial_def)

lemma expect_bernoulli:
  "expect (bernoulli a s) g = a * g (True, s) + (1 - a) * g (False, s)"
  by (simp add: bernoulli_def)

lemma expect_cong:
  assumes "all_outcomes P d" and "\<And>x. P x \<Longrightarrow> g x = h x"
  shows "expect d g = expect d h"
  using assms(1) by (induction d) (auto simp: all_outcomes_def assms(2))

lemma expect_add: "expect d (\<lambda>x. g x + h x) = expect d g + expect d h"
  by (induction d) (auto simp: algebra_simps)

lemma expect_cmult: "expect d (\<lambda>x. c * g x) = c * expect d g"
  by (induction d) (auto simp: algebra_simps)

lemma all_outcomes_bind:
  assumes "all_outcomes P (m s)"
    and "\<And>a s'. P (a, s') \<Longrightarrow> all_outcomes Q (k a s')"
  shows "all_outcomes Q (bind_r m k s)"
proof -
  have "list_all (\<lambda>(x, w). P x) d \<Longrightarrow>
        list_all (\<lambda>(x, w). Q x)
          (concat (map (\<lambda>((a, s'), w). map (\<lambda>(bs, w'). (bs, w * w')) (k a s')) d))" for d
  proof (induction d)
    case Nil
    then show ?case by simp
  next
    case (Cons y d)
    obtain a s' w where y: "y = ((a, s'), w)" by (metis prod.exhaust)
    with Cons.prems have "P (a, s')" by simp
    then have "all_outcomes Q (k a s')" by (rule assms(2))
    then have "list_all (\<lambda>(x, w). Q x) (map (\<lambda>(bs, w'). (bs, w * w')) (k a s'))"
      by (auto simp: all_outcomes_def list_all_iff)
    with Cons y show ?case by simp
  qed
  then show ?thesis using assms(1) by (simp add: all_outcomes_def bind_r_def)
qed

lemma all_outcomes_return: "P (a, s) \<Longrightarrow> all_outcomes P (return_r a s)"
  by (simp add: all_outcomes_def return_r_def)

lemma all_outcomes_multinomial: "(\<And>t. P (t, s)) \<Longrightarrow> all_outcomes P (multinomial V pr s)"
  by (simp add: all_outcomes_def multinomial_def list_all_iff)

lemma all_outcomes_bernoulli: "(\<And>b. P (b, s)) \<Longrightarrow> all_outcomes P (bernoulli a s)"
  by (simp add: all_outcomes_def bernoulli_def)

lemma all_outcomes_mono:
  "all_outcomes P d \<Longrightarrow> (\<And>x. P x \<Longrightarrow> Q x) \<Longrightarrow> all_outcomes Q d"
  by (auto simp: all_outcomes_def list_all_iff)

lemma accept_mass:
  assumes "0 \<le> p" "0 \<le> q"
  shows "q * accept_prob p q = min p q"
proof (cases "q = 0")
  case True
  then show ?thesis using assms by (simp add: accept_prob_def)
next
  case False
  then have q: "0 < q" using assms by simp
  show ?thesis
  proof (cases "p \<le> q")
    case True
    then have "p / q \<le> 1" using q by simp
    then show ?thesis using True False by (simp add: accept_prob_def min_def)
  next
    case False
    then have "\<not> p / q \<le> 1" using q by simp
    then show ?thesis using False q by (simp add: accept_prob_def min_def)
  qed
qed

lemma reject_mass:
  assumes "0 \<le> p" "0 \<le> q"
  shows "q * (1 - accept_prob p q) = q - min p q"
  using accept_mass [OF assms] by (simp add: right_diff_distrib)

lemma accept_mass_weighted:
  assumes "0 \<le> p" "0 \<le> q"
  shows "q * (accept_prob p q * h) = min p q * h"
proof -
  have "q * (accept_prob p q * h) = (q * accept_prob p q) * h" by simp
  then show ?thesis using accept_mass [OF assms] by simp
qed

lemma positive_part: "(p::real) - min p q = max 0 (p - q)"
  by (cases "p \<le> q") (simp_all add: min_def max_def)

lemma min_plus_positive_part: "min p q * h + max 0 (p - q) * h = (p::real) * h"
proof -
  have "min p q + max 0 (p - q) = p"
    by (cases "p \<le> q") (simp_all add: min_def max_def)
  then show ?thesis by (metis distrib_right)
qed

lemma sum_list_cong_all:
  assumes "list_all (\<lambda>x. f x = g x) xs"
  shows "sum_list (map f xs) = (sum_list (map g xs) :: real)"
  using assms by (induction xs) simp_all

lemma sum_list_nonneg_zero:
  fixes f :: "'a \<Rightarrow> real"
  assumes "list_all (\<lambda>x. 0 \<le> f x) xs" "sum_list (map f xs) = 0"
  shows "list_all (\<lambda>x. f x = 0) xs"
  using assms
proof (induction xs)
  case Nil
  then show ?case by simp
next
  case (Cons a xs)
  then have a: "0 \<le> f a" and all: "list_all (\<lambda>x. 0 \<le> f x) xs" by simp_all
  have s: "0 \<le> sum_list (map f xs)"
    using all by (induction xs) simp_all
  from Cons.prems(2) have "f a + sum_list (map f xs) = 0" by simp
  with a s have "f a = 0" "sum_list (map f xs) = 0" by linarith+
  with Cons.IH all show ?case by simp
qed

lemma pmf_nonneg: "is_pmf V p \<Longrightarrow> t \<in> set V \<Longrightarrow> 0 \<le> p t"
  by (simp add: is_pmf_def list_all_iff)

lemma residual_mass:
  assumes "is_pmf V p" "is_pmf V q"
  shows "sum_list (map (\<lambda>x. q x * (1 - accept_prob (p x) (q x))) V)
         = sum_list (map (\<lambda>u. max 0 (p u - q u)) V)"
proof -
  have "list_all (\<lambda>x. q x * (1 - accept_prob (p x) (q x)) = q x - min (p x) (q x)) V"
    unfolding list_all_iff using assms by (blast intro: reject_mass pmf_nonneg)
  then have "sum_list (map (\<lambda>x. q x * (1 - accept_prob (p x) (q x))) V)
        = sum_list (map (\<lambda>x. q x - min (p x) (q x)) V)"
    by (rule sum_list_cong_all)
  also have "\<dots> = sum_list (map q V) - sum_list (map (\<lambda>x. min (p x) (q x)) V)"
    by (rule sum_list_subtractf)
  also have "\<dots> = sum_list (map p V) - sum_list (map (\<lambda>x. min (p x) (q x)) V)"
    using assms by (simp add: is_pmf_def)
  also have "\<dots> = sum_list (map (\<lambda>x. p x - min (p x) (q x)) V)"
    by (rule sum_list_subtractf [symmetric])
  also have "\<dots> = sum_list (map (\<lambda>u. max 0 (p u - q u)) V)"
    by (simp only: positive_part)
  finally show ?thesis .
qed

lemma residual_scaled:
  "sum_list (map (\<lambda>u. max 0 (p u - q u)) V) * sum_list (map (\<lambda>y. residual V p q y * h y) V)
   = sum_list (map (\<lambda>y. max 0 (p y - q y) * h y) V)"
proof (cases "sum_list (map (\<lambda>u. max 0 (p u - q u)) V) = 0")
  case True
  have "list_all (\<lambda>u. 0 \<le> max 0 (p u - q u)) V"
    by (simp add: list_all_iff)
  then have "list_all (\<lambda>u. max 0 (p u - q u) = 0) V"
    using True by (rule sum_list_nonneg_zero)
  then have "list_all (\<lambda>y. max 0 (p y - q y) * h y = 0) V"
    by (simp add: list_all_iff)
  then have "sum_list (map (\<lambda>y. max 0 (p y - q y) * h y) V) = sum_list (map (\<lambda>y. 0) V)"
    by (rule sum_list_cong_all)
  then show ?thesis using True by simp
next
  case False
  define Z where "Z = sum_list (map (\<lambda>u. max 0 (p u - q u)) V)"
  have Z: "Z \<noteq> 0" using False by (simp add: Z_def)
  have res: "residual V p q y = max 0 (p y - q y) / Z" for y
    by (simp add: residual_def Z_def)
  have "Z * sum_list (map (\<lambda>y. residual V p q y * h y) V)
        = sum_list (map (\<lambda>y. Z * (residual V p q y * h y)) V)"
    by (rule sum_list_const_mult [symmetric])
  also have "\<dots> = sum_list (map (\<lambda>y. max 0 (p y - q y) * h y) V)"
    using Z by (simp add: res)
  finally show ?thesis by (simp add: Z_def)
qed

lemma rejection_sampling_exact:
  assumes "is_pmf V p" "is_pmf V q"
  shows "sum_list (map (\<lambda>x. q x * (accept_prob (p x) (q x) * h x)) V)
         + sum_list (map (\<lambda>x. q x * (1 - accept_prob (p x) (q x))) V)
           * sum_list (map (\<lambda>y. residual V p q y * h y) V)
         = sum_list (map (\<lambda>x. p x * h x) V)"
proof -
  have "list_all (\<lambda>x. q x * (accept_prob (p x) (q x) * h x) = min (p x) (q x) * h x) V"
    unfolding list_all_iff using assms by (blast intro: accept_mass_weighted pmf_nonneg)
  then have acc: "sum_list (map (\<lambda>x. q x * (accept_prob (p x) (q x) * h x)) V)
             = sum_list (map (\<lambda>x. min (p x) (q x) * h x) V)"
    by (rule sum_list_cong_all)
  have rej: "sum_list (map (\<lambda>x. q x * (1 - accept_prob (p x) (q x))) V)
           * sum_list (map (\<lambda>y. residual V p q y * h y) V)
           = sum_list (map (\<lambda>y. max 0 (p y - q y) * h y) V)"
    by (simp only: residual_mass [OF assms] residual_scaled)
  have "sum_list (map (\<lambda>x. min (p x) (q x) * h x) V)
        + sum_list (map (\<lambda>y. max 0 (p y - q y) * h y) V)
        = sum_list (map (\<lambda>x. min (p x) (q x) * h x + max 0 (p x - q x) * h x) V)"
    by (rule sum_list_addf [symmetric])
  also have "\<dots> = sum_list (map (\<lambda>x. p x * h x) V)"
    by (simp only: min_plus_positive_part)
  finally show ?thesis
    by (simp only: acc rej)
qed

lemma target_probs_Nil [simp]: "target_probs M cfg \<theta> S [] = []"
  by (simp add: target_probs_def)

lemma target_probs_Cons [simp]:
  "target_probs M cfg \<theta> S (x # xs)
   = cfg (full_logits M \<theta> S) # target_probs M cfg \<theta> (S @ [x]) xs"
  by (simp add: target_probs_def map_upt_Suc del: upt_Suc)

lemma record_graph_no_grad [simp]: "\<not> grad_enabled s \<Longrightarrow> record_graph s = s"
  by (simp add: record_graph_def)

lemma expect_forward_full:
  "\<not> grad_enabled s \<Longrightarrow>
   expect (bind_r (forward_full M S) k s) G = expect (k (full_logits M (params s) S) s) G"
  by (simp add: expect_bind forward_full_def)

lemma expect_forward_early_exit:
  "\<not> grad_enabled s \<Longrightarrow>
   expect (bind_r (forward_early_exit M S) k s) G
   = expect (k (early_exit_logits M (params s) S) s) G"
  by (simp add: expect_bind forward_early_exit_def)

lemma base_loop_Suc_expect:
  "\<not> grad_enabled s \<Longrightarrow>
   expect (base_loop M cfg (Suc n) S s) G
   = sum_list (map (\<lambda>t. cfg (full_logits M (params s) S) t
                          * expect (base_loop M cfg n (S @ [t]) s) G) (vocab M))"
  by (simp add: forward_full_def expect_bind expect_multinomial)

lemma accept_reject_Nil_expect:
  "expect (accept_reject V [] p_next s) G = sum_list (map (\<lambda>t. p_next t * G ([t], s)) V)"
  by (simp add: expect_bind expect_multinomial expect_return)

lemma accept_reject_Cons_expect:
  "expect (accept_reject V (((x, q), p) # rest) p_next s) G
   = accept_prob (p x) (q x) * expect (accept_reject V rest p_next s) (\<lambda>(e, s'). G (x # e, s'))
     + (1 - accept_prob (p x) (q x))
       * sum_list (map (\<lambda>t. residual V p q t * G ([t], s)) V)"
  by (simp add: expect_bind expect_bernoulli expect_multinomial expect_return)

lemma all_outcomes_draft:
  "\<not> grad_enabled s \<Longrightarrow>
   all_outcomes (\<lambda>(ds, s'). s' = s \<and> length ds = g) (draft M cfg g S s)"
proof (induction g arbitrary: S)
  case 0
  then show ?case by (simp add: all_outcomes_return)
next
  case (Suc g)
  show ?case
    unfolding draft.simps
  proof (rule all_outcomes_bind [where P = "\<lambda>(a, s'). s' = s"], goal_cases)
    case 1
    show ?case using Suc.prems by (simp add: forward_early_exit_def all_outcomes_def)
  next
    case (2 logits s1)
    then have s1: "s1 = s" by simp
    show ?case
    proof (rule all_outcomes_bind [where P = "\<lambda>(a, s'). s' = s"], goal_cases)
      case 1
      show ?case unfolding s1 by (rule all_outcomes_multinomial) simp
    next
      case (2 t s2)
      then have s2: "s2 = s" by simp
      show ?case
      proof (rule all_outcomes_bind [where P = "\<lambda>(ds, s'). s' = s \<and> length ds = g"], goal_cases)
        case 1
        show ?case unfolding s2 by (rule Suc.IH [OF Suc.prems])
      next
        case (2 rest s3)
        then show ?case by (simp add: all_outcomes_return)
      qed
    qed
  qed
qed

lemma draft_mass:
  assumes "\<not> grad_enabled s"
    and "\<And>S. is_pmf (vocab M) (cfg (early_exit_logits M (params s) S))"
  shows "expect (draft M cfg g S s) (\<lambda>_. c) = c"
proof (induction g arbitrary: S)
  case 0
  then show ?case by (simp add: expect_return)
next
  case (Suc g)
  have "expect (draft M cfg (Suc g) S s) (\<lambda>_. c)
        = sum_list (map (\<lambda>t. cfg (early_exit_logits M (params s) S) t
              * expect (draft M cfg g (S @ [t]) s) (\<lambda>_. c)) (vocab M))"
    using assms(1)
    by (simp add: forward_early_exit_def expect_bind expect_multinomial expect_return split_def)
  also have "\<dots> = sum_list (map (\<lambda>t. cfg (early_exit_logits M (params s) S) t * c) (vocab M))"
    by (simp only: Suc.IH)
  also have "\<dots> = sum_list (map (cfg (early_exit_logits M (params s) S)) (vocab M)) * c"
    by (rule sum_list_mult_const)
  also have "\<dots> = c"
    using assms(2) [of S] by (simp add: is_pmf_def)
  finally show ?case .
qed

lemma stateless_return: "stateless (return_r a) s"
  by (simp add: stateless_def all_outcomes_return)

lemma stateless_multinomial: "stateless (multinomial V pr) s"
  by (simp add: stateless_def all_outcomes_multinomial)

lemma stateless_bernoulli: "stateless (bernoulli a) s"
  by (simp add: stateless_def all_outcomes_bernoulli)

lemma stateless_forward_full: "\<not> grad_enabled s \<Longrightarrow> stateless (forward_full M S) s"
  by (simp add: stateless_def all_outcomes_def forward_full_def)

lemma stateless_forward_early_exit: "\<not> grad_enabled s \<Longrightarrow> stateless (forward_early_exit M S) s"
  by (simp add: stateless_def all_outcomes_def forward_early_exit_def)

lemma stateless_forward_verify: "\<not> grad_enabled s \<Longrightarrow> stateless (forward_verify M S xs) s"
  by (simp add: stateless_def all_outcomes_def forward_verify_def)

lemma stateless_bind:
  assumes "stateless m s" and "\<And>a. stateless (k a) s"
  shows "stateless (bind_r m k) s"
  unfolding stateless_def
proof (rule all_outcomes_bind [where P = "\<lambda>x. snd x = s"])
  show "all_outcomes (\<lambda>x. snd x = s) (m s)"
    using assms(1) by (simp add: stateless_def)
  show "all_outcomes (\<lambda>x. snd x = s) (k a s')" if "snd (a, s') = s" for a s'
    using that assms(2) [of a] by (simp add: stateless_def)
qed

lemma ev_return: "ev (return_r a s) h = h a"
  by (simp add: ev_def expect_return)

lemma ev_multinomial: "ev (multinomial V pr s) h = sum_list (map (\<lambda>t. pr t * h t) V)"
  by (simp add: ev_def expect_multinomial)

lemma ev_bernoulli: "ev (bernoulli a s) h = a * h True + (1 - a) * h False"
  by (simp add: ev_def expect_bernoulli)

lemma ev_bind:
  assumes "stateless m s"
  shows "ev (bind_r m k s) h = ev (m s) (\<lambda>a. ev (k a s) h)"
proof -
  have "expect (m s) (\<lambda>(a, s'). expect (k a s') (\<lambda>x. h (fst x)))
        = expect (m s) (\<lambda>x. expect (k (fst x) s) (\<lambda>x. h (fst x)))"
    using assms unfolding stateless_def
    by (rule expect_cong) (auto simp: split_def)
  then show ?thesis by (simp add: ev_def expect_bind)
qed

lemma ev_cong:
  assumes "all_outcomes P d" and "\<And>x. P x \<Longrightarrow> h (fst x) = h' (fst x)"
  shows "ev d h = ev d h'"
  unfolding ev_def using assms(1) by (rule expect_cong) (rule assms(2))

lemma ev_add: "ev d (\<lambda>a. h a + h' a) = ev d h + ev d h'"
  by (simp add: ev_def expect_add)

lemma ev_cmult: "ev d (\<lambda>a. c * h a) = c * ev d h"
  by (simp add: ev_def expect_cmult)

lemma ev_forward_full:
  "\<not> grad_enabled s \<Longrightarrow> ev (forward_full M S s) h = h (full_logits M (params s) S)"
  by (simp add: ev_def forward_full_def)

lemma ev_forward_early_exit:
  "\<not> grad_enabled s \<Longrightarrow> ev (forward_early_exit M S s) h = h (early_exit_logits M (params s) S)"
  by (simp add: ev_def forward_early_exit_def)

lemma ev_forward_verify:
  "\<not> grad_enabled s \<Longrightarrow>
   ev (forward_verify M S xs s) h
   = h (map (\<lambda>i. full_logits M (params s) (S @ take i xs)) [0..<length xs],
        full_logits M (params s) (S @ xs))"
  by (simp add: ev_def forward_verify_def)

lemma stateless_base_loop: "\<not> grad_enabled s \<Longrightarrow> stateless (base_loop M cfg n S) s"
  by (induction n arbitrary: S)
    (simp_all add: stateless_return stateless_bind stateless_forward_full stateless_multinomial)

lemma stateless_draft: "\<not> grad_enabled s \<Longrightarrow> stateless (draft M cfg g S) s"
  by (induction g arbitrary: S)
    (simp_all add: stateless_return stateless_bind stateless_forward_early_exit
       stateless_multinomial)

lemma stateless_accept_reject: "stateless (accept_reject V triples p_next) s"
  by (induction V triples p_next rule: accept_reject.induct)
    (simp_all add: stateless_return stateless_bind stateless_bernoulli stateless_multinomial)

lemma stateless_speculative_step:
  "\<not> grad_enabled s \<Longrightarrow> stateless (speculative_step M cfg g S) s"
  by (simp add: speculative_step_def stateless_bind stateless_draft stateless_forward_verify
      stateless_accept_reject split_def)

lemma stateless_speculative_loop:
  "\<not> grad_enabled s \<Longrightarrow> stateless (speculative_loop M cfg gamma len fuel S acc k) s"
  by (induction fuel arbitrary: S acc k)
    (simp_all add: stateless_return stateless_bind stateless_speculative_step)

lemma ev_base_loop_Suc:
  assumes "\<not> grad_enabled s"
  shows "ev (base_loop M cfg (Suc n) S s) h
         = sum_list (map (\<lambda>t. cfg (full_logits M (params s) S) t
                                * ev (base_loop M cfg n (S @ [t]) s) h) (vocab M))"
  using assms
  by (simp add: ev_bind stateless_forward_full stateless_multinomial ev_forward_full
      ev_multinomial)

lemma ev_draft_Suc:
  assumes "\<not> grad_enabled s"
  shows "ev (draft M cfg (Suc g) S s) h
         = sum_list (map (\<lambda>t. cfg (early_exit_logits M (params s) S) t
              * ev (draft M cfg g (S @ [t]) s)
                  (\<lambda>rest. h ((t, cfg (early_exit_logits M (params s) S)) # rest))) (vocab M))"
  using assms
  by (simp add: ev_bind stateless_forward_early_exit stateless_multinomial stateless_draft
      ev_forward_early_exit ev_multinomial ev_return)

lemma ev_accept_reject_Nil:
  "ev (accept_reject V [] p_next s) h = sum_list (map (\<lambda>t. p_next t * h [t]) V)"
  by (simp add: ev_bind stateless_multinomial ev_multinomial ev_return)

lemma ev_accept_reject_Cons:
  "ev (accept_reject V (((x, q), p) # rest) p_next s) h
   = accept_prob (p x) (q x) * ev (accept_reject V rest p_next s) (\<lambda>e. h (x # e))
     + (1 - accept_prob (p x) (q x)) * sum_list (map (\<lambda>t. residual V p q t * h [t]) V)"
  by (simp add: ev_bind stateless_bernoulli stateless_multinomial stateless_accept_reject
      ev_bernoulli ev_multinomial ev_return)

lemma ev_speculative_step:
  assumes "\<not> grad_enabled s"
  shows "ev (speculative_step M cfg g S s) h
         = ev (draft M cfg g S s) (\<lambda>ds.
             ev (accept_reject (vocab M) (zip ds (target_probs M cfg (params s) S (map fst ds)))
                  (cfg (full_logits M (params s) (S @ map fst ds))) s) h)"
  using assms
  by (simp add: speculative_step_def ev_bind stateless_draft stateless_forward_verify
      ev_forward_verify target_probs_def o_def)

lemma ev_draft_const:
  assumes "\<not> grad_enabled s"
    and "\<And>S. is_pmf (vocab M) (cfg (early_exit_logits M (params s) S))"
  shows "ev (draft M cfg g S s) (\<lambda>_. c) = c"
  using draft_mass [where s = s and M = M and cfg = cfg, OF assms] by (simp add: ev_def)

lemma all_outcomes_accept_reject:
  "all_outcomes (\<lambda>x. 1 \<le> length (fst x) \<and> length (fst x) \<le> length triples + 1)
     (accept_reject V triples p_next s)"
proof (induction V triples p_next arbitrary: s rule: accept_reject.induct)
  case (1 V p_next)
  show ?case
    unfolding accept_reject.simps
    by (rule all_outcomes_bind [where P = "\<lambda>x. True"])
      (simp_all add: all_outcomes_multinomial all_outcomes_return)
next
  case (2 V x q p rest p_next)
  show ?case
    unfolding accept_reject.simps
  proof (rule all_outcomes_bind [where P = "\<lambda>x. True"], goal_cases)
    case 1
    show ?case by (simp add: all_outcomes_bernoulli)
  next
    case (2 accepted s1)
    show ?case
    proof (cases accepted)
      case True
      have "all_outcomes (\<lambda>y. 1 \<le> length (fst y) \<and> length (fst y) \<le> length (((x, q), p) # rest) + 1)
              (bind_r (accept_reject V rest p_next) (\<lambda>e. return_r (x # e)) s1)"
        by (rule all_outcomes_bind [OF "2.IH" [OF True]]) (simp add: all_outcomes_return)
      then show ?thesis using True by simp
    next
      case False
      have "all_outcomes (\<lambda>y. 1 \<le> length (fst y) \<and> length (fst y) \<le> length (((x, q), p) # rest) + 1)
              (bind_r (multinomial V (residual V p q)) (\<lambda>t. return_r [t]) s1)"
        by (rule all_outcomes_bind [where P = "\<lambda>x. True"])
          (simp_all add: all_outcomes_multinomial all_outcomes_return)
      then show ?thesis using False by simp
    qed
  qed
qed

lemma all_outcomes_draft_length:
  "all_outcomes (\<lambda>x. length (fst x) = g) (draft M cfg g S s)"
proof (induction g arbitrary: S s)
  case 0
  show ?case by (simp add: all_outcomes_return)
next
  case (Suc g)
  show ?case
    unfolding draft.simps
  proof (rule all_outcomes_bind [where P = "\<lambda>x. True"], goal_cases)
    case 1
    show ?case by (simp add: all_outcomes_def forward_early_exit_def)
  next
    case (2 logits s1)
    show ?case
    proof (rule all_outcomes_bind [where P = "\<lambda>x. True"], goal_cases)
      case 1
      show ?case by (simp add: all_outcomes_multinomial)
    next
      case (2 t s2)
      show ?case
        by (rule all_outcomes_bind [OF Suc.IH]) (simp add: all_outcomes_return)
    qed
  qed
qed

lemma all_outcomes_speculative_step:
  "all_outcomes (\<lambda>x. 1 \<le> length (fst x) \<and> length (fst x) \<le> g + 1)
     (speculative_step M cfg g S s)"
  unfolding speculative_step_def
proof (rule all_outcomes_bind [OF all_outcomes_draft_length], goal_cases)
  case (1 drafts s1)
  then have len: "length drafts = g" by simp
  show ?case
  proof (rule all_outcomes_bind [where P = "\<lambda>x. length (fst (fst x)) = g"], goal_cases)
    case 1
    show ?case by (simp add: all_outcomes_def forward_verify_def len)
  next
    case (2 a s2)
    obtain logits logits_next where a: "a = (logits, logits_next)" by (cases a)
    with 2 have "length logits = g" by simp
    then have "length (zip drafts (map cfg logits)) = g" using len by simp
    then show ?case
      using all_outcomes_accept_reject
        [of "zip drafts (map cfg logits)" "vocab M" "cfg logits_next" s2]
      by (simp add: a)
  qed
qed

lemma speculative_block_exact:
  assumes ng: "\<not> grad_enabled s"
    and pmf_full: "\<And>S. is_pmf (vocab M) (cfg (full_logits M (params s) S))"
    and pmf_early: "\<And>S. is_pmf (vocab M) (cfg (early_exit_logits M (params s) S))"
  shows "g < n \<Longrightarrow>
         ev (draft M cfg g S s) (\<lambda>ds.
           ev (accept_reject (vocab M) (zip ds (target_probs M cfg (params s) S (map fst ds)))
                (cfg (full_logits M (params s) (S @ map fst ds))) s)
              (\<lambda>e. ev (base_loop M cfg (n - length e) (S @ e) s) h))
         = ev (base_loop M cfg n S s) h"
proof (induction g arbitrary: S n)
  case 0
  then obtain m where n: "n = Suc m" by (cases n) simp_all
  show ?case
    by (simp add: n ev_return ev_accept_reject_Nil ev_base_loop_Suc [OF ng]
        del: accept_reject.simps base_loop.simps)
next
  case (Suc g)
  then obtain m where n: "n = Suc m" and gm: "g < m" by (cases n) simp_all
  define q where "q = cfg (early_exit_logits M (params s) S)"
  define p where "p = cfg (full_logits M (params s) S)"
  define a where "a t = accept_prob (p t) (q t)" for t
  define hB where "hB t = ev (base_loop M cfg m (S @ [t]) s) h" for t
  define R where "R = sum_list (map (\<lambda>y. residual (vocab M) p q y * hB y) (vocab M))"
  have dc: "ev (draft M cfg g S' s) (\<lambda>_. c) = c" for S' c
    by (rule ev_draft_const [where M = M and cfg = cfg, OF ng pmf_early])
  have inner: "ev (draft M cfg g (S @ [t]) s) (\<lambda>rest.
           ev (accept_reject (vocab M)
                 (zip ((t, q) # rest) (target_probs M cfg (params s) S (map fst ((t, q) # rest))))
                 (cfg (full_logits M (params s) (S @ map fst ((t, q) # rest)))) s)
              (\<lambda>e. ev (base_loop M cfg (n - length e) (S @ e) s) h))
         = a t * hB t + (1 - a t) * R" for t
  proof -
    have "ev (draft M cfg g (S @ [t]) s) (\<lambda>rest.
           ev (accept_reject (vocab M)
                 (zip ((t, q) # rest) (target_probs M cfg (params s) S (map fst ((t, q) # rest))))
                 (cfg (full_logits M (params s) (S @ map fst ((t, q) # rest)))) s)
              (\<lambda>e. ev (base_loop M cfg (n - length e) (S @ e) s) h))
        = ev (draft M cfg g (S @ [t]) s) (\<lambda>rest.
            a t * ev (accept_reject (vocab M)
                       (zip rest (target_probs M cfg (params s) (S @ [t]) (map fst rest)))
                       (cfg (full_logits M (params s) ((S @ [t]) @ map fst rest))) s)
                     (\<lambda>e. ev (base_loop M cfg (m - length e) ((S @ [t]) @ e) s) h)
            + (1 - a t) * R)"
      by (simp add: ev_accept_reject_Cons n a_def p_def R_def hB_def
          del: accept_reject.simps base_loop.simps)
    also have "\<dots> = a t * ev (draft M cfg g (S @ [t]) s) (\<lambda>rest.
                       ev (accept_reject (vocab M)
                            (zip rest (target_probs M cfg (params s) (S @ [t]) (map fst rest)))
                            (cfg (full_logits M (params s) ((S @ [t]) @ map fst rest))) s)
                          (\<lambda>e. ev (base_loop M cfg (m - length e) ((S @ [t]) @ e) s) h))
                  + (1 - a t) * R"
      by (simp only: ev_add ev_cmult dc)
    also have "\<dots> = a t * hB t + (1 - a t) * R"
      by (simp only: Suc.IH [OF gm] hB_def)
    finally show ?thesis .
  qed
  have "ev (draft M cfg (Suc g) S s) (\<lambda>ds.
           ev (accept_reject (vocab M) (zip ds (target_probs M cfg (params s) S (map fst ds)))
                (cfg (full_logits M (params s) (S @ map fst ds))) s)
              (\<lambda>e. ev (base_loop M cfg (n - length e) (S @ e) s) h))
        = sum_list (map (\<lambda>t. q t * (a t * hB t + (1 - a t) * R)) (vocab M))"
    unfolding ev_draft_Suc [OF ng] q_def [symmetric] by (simp only: inner)
  also have "\<dots> = sum_list (map (\<lambda>t. q t * (a t * hB t) + q t * (1 - a t) * R) (vocab M))"
    by (simp add: algebra_simps)
  also have "\<dots> = sum_list (map (\<lambda>t. q t * (a t * hB t)) (vocab M))
                  + sum_list (map (\<lambda>t. q t * (1 - a t)) (vocab M)) * R"
    by (simp only: sum_list_addf sum_list_mult_const)
  also have "\<dots> = sum_list (map (\<lambda>t. p t * hB t) (vocab M))"
    unfolding a_def R_def
    by (rule rejection_sampling_exact) (simp_all add: p_def q_def pmf_full pmf_early)
  also have "\<dots> = ev (base_loop M cfg n S s) h"
    by (simp add: n ev_base_loop_Suc [OF ng] p_def hB_def del: base_loop.simps)
  finally show ?case .
qed

lemma speculative_loop_exact:
  fixes S :: "'t list" and s :: "('p, 'o, 'z) torch_scheme"
  assumes ng: "\<not> grad_enabled s"
    and pmf_full: "\<And>S. is_pmf (vocab M) (cfg (full_logits M (params s) S))"
    and pmf_early: "\<And>S. is_pmf (vocab M) (cfg (early_exit_logits M (params s) S))"
  shows "len - length S \<le> fuel \<Longrightarrow>
         ev (speculative_loop M cfg gamma len fuel S acc k s) (\<lambda>r. h (fst r))
         = ev (base_loop M cfg (len - length S) S s) h"
proof (induction fuel arbitrary: S acc k)
  case 0
  then show ?case by (simp add: ev_return)
next
  case (Suc fuel)
  show ?case
  proof (cases "len \<le> length S")
    case True
    then show ?thesis by (simp add: ev_return)
  next
    case False
    define n where "n = len - length S"
    define g where "g = min gamma (n - 1)"
    have n: "0 < n" using False by (simp add: n_def)
    have gn: "g < n" using n by (simp add: g_def)
    have "ev (speculative_loop M cfg gamma len (Suc fuel) S acc k s) (\<lambda>r. h (fst r))
          = ev (speculative_step M cfg g S s) (\<lambda>e.
              ev (speculative_loop M cfg gamma len fuel (S @ e) (acc + (length e - 1)) (k + 1) s)
                 (\<lambda>r. h (fst r)))"
      using False
      by (simp add: ev_bind stateless_speculative_step [OF ng] g_def n_def)
    also have "\<dots> = ev (speculative_step M cfg g S s) (\<lambda>e.
              ev (base_loop M cfg (n - length e) (S @ e) s) h)"
    proof (rule ev_cong [OF all_outcomes_speculative_step])
      fix x :: "'t list \<times> ('p, 'o, 'z) torch_scheme"
      assume x: "1 \<le> length (fst x) \<and> length (fst x) \<le> g + 1"
      have "len - length (S @ fst x) \<le> fuel"
        using Suc.prems x by auto
      then have "ev (speculative_loop M cfg gamma len fuel (S @ fst x)
                   (acc + (length (fst x) - 1)) (k + 1) s) (\<lambda>r. h (fst r))
                 = ev (base_loop M cfg (len - length (S @ fst x)) (S @ fst x) s) h"
        by (rule Suc.IH)
      then show "ev (speculative_loop M cfg gamma len fuel (S @ fst x)
                   (acc + (length (fst x) - 1)) (k + 1) s) (\<lambda>r. h (fst r))
                 = ev (base_loop M cfg (n - length (fst x)) (S @ fst x) s) h"
        by (simp add: n_def)
    qed
    also have "\<dots> = ev (base_loop M cfg n S s) h"
      unfolding ev_speculative_step [OF ng]
      by (rule speculative_block_exact [OF ng pmf_full pmf_early gn])
    finally show ?thesis by (simp add: n_def)
  qed
qed

lemma ev_no_grad: "ev (no_grad m s) h = ev (m (s\<lparr>grad_enabled := False\<rparr>)) h"
proof -
  have "expect (map (\<lambda>((a, s'), w). ((a, f s'), w)) d) (\<lambda>x. h (fst x))
        = expect d (\<lambda>x. h (fst x))" for d :: "(('a \<times> 's) \<times> real) list" and f :: "'s \<Rightarrow> 's"
    by (induction d) auto
  then show ?thesis by (simp add: ev_def no_grad_def)
qed

lemma take_prefix_of_longer:
  assumes "take (length (S @ e)) r = S @ e"
  shows "take (length S) r = S"
proof -
  have "take (length S) r = take (length S) (take (length (S @ e)) r)"
    by (simp add: min_def)
  also have "\<dots> = take (length S) (S @ e)"
    by (simp only: assms)
  also have "\<dots> = S"
    by simp
  finally show ?thesis .
qed

lemma all_outcomes_base_loop:
  fixes S :: "'t list" and s :: "('p, 'o, 'z) torch_scheme"
  shows "all_outcomes (\<lambda>x. length (fst x) = length S + n \<and> take (length S) (fst x) = S)
     (base_loop M cfg n S s)"
proof (induction n arbitrary: S s)
  case 0
  show ?case by (simp add: all_outcomes_return)
next
  case (Suc n)
  show ?case
    unfolding base_loop.simps
  proof (rule all_outcomes_bind [where P = "\<lambda>x. True"], goal_cases)
    case 1
    show ?case by (simp add: all_outcomes_def forward_full_def)
  next
    case (2 logits s1)
    show ?case
    proof (rule all_outcomes_bind [where P = "\<lambda>x. True"], goal_cases)
      case 1
      show ?case by (simp add: all_outcomes_multinomial)
    next
      case (2 t s2)
      show ?case
      proof (rule all_outcomes_mono [OF Suc.IH [of "S @ [t]" s2]])
        fix x :: "'t list \<times> ('p, 'o, 'z) torch_scheme"
        assume "length (fst x) = length (S @ [t]) + n
                \<and> take (length (S @ [t])) (fst x) = S @ [t]"
        then show "length (fst x) = length S + Suc n \<and> take (length S) (fst x) = S"
          using take_prefix_of_longer [of S "[t]" "fst x"] by simp
      qed
    qed
  qed
qed

lemma average_bounds:
  assumes "total_accepted \<le> gamma * num_steps"
  shows "0 \<le> average total_accepted num_steps \<and> average total_accepted num_steps \<le> real gamma"
proof (cases "num_steps = 0")
  case True
  then show ?thesis by (simp add: average_def)
next
  case False
  have "real total_accepted \<le> real (gamma * num_steps)"
    using assms by (simp only: of_nat_le_iff)
  then have "real total_accepted / real num_steps \<le> real gamma"
    using False by (simp add: field_simps)
  then show ?thesis using False by (simp add: average_def)
qed

lemma all_outcomes_speculative_loop:
  fixes S :: "'t list" and s :: "('p, 'o, 'z) torch_scheme"
  shows "len - length S \<le> fuel \<Longrightarrow> total_accepted \<le> gamma * num_steps \<Longrightarrow>
   all_outcomes
     (\<lambda>x. length (fst (fst x)) = max len (length S) \<and> take (length S) (fst (fst x)) = S
           \<and> 0 \<le> snd (fst x) \<and> snd (fst x) \<le> real gamma)
     (speculative_loop M cfg gamma len fuel S total_accepted num_steps s)"
proof (induction fuel arbitrary: S total_accepted num_steps s)
  case 0
  then show ?case
    using average_bounds [of total_accepted gamma num_steps]
    by (simp add: all_outcomes_return max_def)
next
  case (Suc fuel)
  show ?case
  proof (cases "len \<le> length S")
    case True
    then show ?thesis
      using average_bounds [OF Suc.prems(2)]
      by (simp add: all_outcomes_return max_def)
  next
    case False
    define g where "g = min gamma (len - length S - 1)"
    have "all_outcomes
            (\<lambda>x. length (fst (fst x)) = max len (length S) \<and> take (length S) (fst (fst x)) = S
                  \<and> 0 \<le> snd (fst x) \<and> snd (fst x) \<le> real gamma)
            (bind_r (speculative_step M cfg g S) (\<lambda>e.
               speculative_loop M cfg gamma len fuel (S @ e)
                 (total_accepted + (length e - 1)) (num_steps + 1)) s)"
    proof (rule all_outcomes_bind [OF all_outcomes_speculative_step], goal_cases)
      case (1 e s1)
      then have e: "1 \<le> length e" "length e \<le> g + 1" by simp_all
      have fuel: "len - length (S @ e) \<le> fuel"
        using Suc.prems(1) e by auto
      have "length e - 1 \<le> gamma"
        using e by (simp add: g_def)
      then have "total_accepted + (length e - 1) \<le> gamma * num_steps + gamma"
        using Suc.prems(2) by linarith
      then have acc: "total_accepted + (length e - 1) \<le> gamma * (num_steps + 1)"
        by simp
      have room: "length (S @ e) \<le> len"
        using e False by (simp add: g_def)
      show ?case
      proof (rule all_outcomes_mono [OF Suc.IH [OF fuel acc]])
        fix x :: "('t list \<times> real) \<times> ('p, 'o, 'z) torch_scheme"
        assume x: "length (fst (fst x)) = max len (length (S @ e))
                   \<and> take (length (S @ e)) (fst (fst x)) = S @ e
                   \<and> 0 \<le> snd (fst x) \<and> snd (fst x) \<le> real gamma"
        have "max len (length (S @ e)) = max len (length S)"
          using room False by (simp add: max_def)
        then show "length (fst (fst x)) = max len (length S)
                   \<and> take (length S) (fst (fst x)) = S
                   \<and> 0 \<le> snd (fst x) \<and> snd (fst x) \<le> real gamma"
          using x take_prefix_of_longer [of S e "fst (fst x)"] by simp
      qed
    qed
    then show ?thesis using False by (simp add: g_def)
  qed
qed

lemma all_outcomes_no_grad:
  assumes "all_outcomes (\<lambda>x. P (fst x)) (m (s\<lparr>grad_enabled := False\<rparr>))"
  shows "all_outcomes (\<lambda>x. P (fst x)) (no_grad m s)"
  using assms by (auto simp: all_outcomes_def no_grad_def list_all_iff)

lemma stateless_no_grad:
  assumes "stateless m (s\<lparr>grad_enabled := False\<rparr>)"
  shows "stateless (no_grad m) s"
  using assms by (auto simp: stateless_def all_outcomes_def no_grad_def list_all_iff)

lemma stateless_base_decode: "stateless (base_decode M prompt len cfg) s"
  unfolding base_decode_def by (rule stateless_no_grad) (simp add: stateless_base_loop)

lemma stateless_speculative_decode:
  "speculative_decode M prompt len gamma cfg = Inr run \<Longrightarrow> stateless run s"
  by (auto simp: speculative_decode_def split: if_splits
      intro!: stateless_no_grad stateless_speculative_loop)


lemma is_pmf_toy_full:
  "is_pmf (vocab toy_model) (as_probabilities (full_logits toy_model \<theta> S))"
  by (simp add: is_pmf_def toy_model_def as_probabilities_def)

lemma is_pmf_toy_early:
  "is_pmf (vocab toy_model) (as_probabilities (early_exit_logits toy_model \<theta> S))"
  by (simp add: is_pmf_def toy_model_def as_probabilities_def)

section \<open>Properties of the decoders\<close>

text \<open>
  C1: speculative decoding is distributionally exact.  For every model and sampling
  configuration that give probability distributions over the vocabulary, every prompt,
  target length and positive \<open>gamma\<close>, and whatever the autograd mode it is called in,
  speculative decoding returns, and the expectation of every function \<open>h\<close> of the
  sequence it produces equals the expectation under base decoding from the full-depth
  model alone.  With \<open>h\<close> the indicator of "the token at position \<open>k\<close> is \<open>t\<close>" this is the
  equality of the marginal distribution of each emitted token; with \<open>h\<close> the indicator of
  one sequence it is the equality of the joint distributions.
\<close>

theorem speculative_decoding_exact:
  fixes s :: "('p, 'o, 'z) torch_scheme"
  assumes "0 < gamma"
    and "\<And>S. is_pmf (vocab M) (cfg (full_logits M (params s) S))"
    and "\<And>S. is_pmf (vocab M) (cfg (early_exit_logits M (params s) S))"
  shows "\<exists>run. speculative_decode M prompt len gamma cfg = Inr run
           \<and> (\<forall>k t. ev (run s) (\<lambda>r. token_at k t (fst r))
                     = ev (base_decode M prompt len cfg s) (token_at k t))
           \<and> (\<forall>h. ev (run s) (\<lambda>r. h (fst r)) = ev (base_decode M prompt len cfg s) h)"
proof -
  let ?s = "s\<lparr>grad_enabled := False\<rparr>"
  let ?run = "no_grad (speculative_loop M cfg gamma len (len - length prompt) prompt 0 0)"
  have ng: "\<not> grad_enabled ?s" by simp
  have pf: "is_pmf (vocab M) (cfg (full_logits M (params ?s) S))" for S
    using assms(2) by simp
  have pe: "is_pmf (vocab M) (cfg (early_exit_logits M (params ?s) S))" for S
    using assms(3) by simp
  have eq: "ev (?run s) (\<lambda>r. h (fst r)) = ev (base_decode M prompt len cfg s) h" for h
  proof -
    have "ev (?run s) (\<lambda>r. h (fst r))
          = ev (speculative_loop M cfg gamma len (len - length prompt) prompt 0 0 ?s)
              (\<lambda>r. h (fst r))"
      by (rule ev_no_grad)
    also have "\<dots> = ev (base_loop M cfg (len - length prompt) prompt ?s) h"
      by (rule speculative_loop_exact [where M = M and cfg = cfg, OF ng pf pe]) simp
    also have "\<dots> = ev (base_decode M prompt len cfg s) h"
      by (simp add: base_decode_def ev_no_grad)
    finally show ?thesis .
  qed
  have "speculative_decode M prompt len gamma cfg = Inr ?run"
    using assms(1) by (simp add: speculative_decode_def)
  then show ?thesis using eq by blast
qed

lemma toy_base_marginal:
  "ev (base_decode toy_model [0] 3 as_probabilities toy_state) (token_at 1 0) = 3 / 4"
  by (simp add: base_decode_def ev_no_grad ev_base_loop_Suc ev_return numeral_3_eq_3
      toy_model_def as_probabilities_def toy_state_def token_at_def
      del: base_loop.simps(2))

theorem speculative_decoding_exact_witness:
  "0 < (2::nat)
   \<and> (\<forall>S. is_pmf (vocab toy_model) (as_probabilities (full_logits toy_model (params toy_state) S)))
   \<and> (\<forall>S. is_pmf (vocab toy_model)
            (as_probabilities (early_exit_logits toy_model (params toy_state) S)))
   \<and> (\<exists>run. speculative_decode toy_model [0] 3 2 as_probabilities = Inr run
         \<and> ev (run toy_state) (\<lambda>r. token_at 1 0 (fst r)) = 3 / 4)"
proof -
  have "\<exists>run. speculative_decode toy_model [0] 3 2 as_probabilities = Inr run
           \<and> (\<forall>k t. ev (run toy_state) (\<lambda>r. token_at k t (fst r))
                     = ev (base_decode toy_model [0] 3 as_probabilities toy_state) (token_at k t))
           \<and> (\<forall>h. ev (run toy_state) (\<lambda>r. h (fst r))
                   = ev (base_decode toy_model [0] 3 as_probabilities toy_state) h)"
    by (rule speculative_decoding_exact [where gamma = 2 and M = toy_model
          and cfg = as_probabilities and s = toy_state and prompt = "[0]" and len = 3])
      (simp_all add: is_pmf_toy_full is_pmf_toy_early)
  then obtain run where "speculative_decode toy_model [0] 3 2 as_probabilities = Inr run"
    and "ev (run toy_state) (\<lambda>r. token_at 1 0 (fst r))
         = ev (base_decode toy_model [0] 3 as_probabilities toy_state) (token_at 1 0)"
    by blast
  then show ?thesis
    using toy_base_marginal is_pmf_toy_full is_pmf_toy_early by auto
qed

lemma bind_return_map:
  fixes m :: "('a, 's) rand"
  shows "bind_r m (\<lambda>x. return_r (g x)) s = map_outcomes (\<lambda>(x, s'). (g x, s')) (m s)"
proof -
  have "concat (map (\<lambda>((a, s'), w). map (\<lambda>(bs, w'). (bs, w * w')) [((g a, s'), 1)]) d)
        = map (\<lambda>(x, w). ((\<lambda>(x, s'). (g x, s')) x, w)) d" for d :: "(('a \<times> 's) \<times> real) list"
    by (induction d) auto
  then show ?thesis
    by (simp add: bind_r_def return_r_def map_outcomes_def)
qed

lemma map_outcomes_bind:
  fixes m :: "('a, 's) rand"
  shows "map_outcomes f (bind_r m k s) = bind_r m (\<lambda>a s'. map_outcomes f (k a s')) s"
proof -
  have "map (\<lambda>(x, w). (f x, w))
          (concat (map (\<lambda>((a, s'), w). map (\<lambda>(bs, w'). (bs, w * w')) (k a s')) d))
        = concat (map (\<lambda>((a, s'), w). map (\<lambda>(bs, w'). (bs, w * w'))
                    (map (\<lambda>(x, w). (f x, w)) (k a s'))) d)" for d :: "(('a \<times> 's) \<times> real) list"
    by (induction d) (auto simp: split_def)
  then show ?thesis
    by (simp add: bind_r_def map_outcomes_def)
qed

lemma map_outcomes_comp: "map_outcomes f (map_outcomes g d) = map_outcomes (\<lambda>x. f (g x)) d"
  by (simp add: map_outcomes_def split_def comp_def)

lemma speculative_loop_blocks:
  fixes S :: "'t list" and s :: "('p, 'o, 'z) torch_scheme"
  shows "speculative_loop M cfg gamma len fuel S a n s
         = map_outcomes
             (\<lambda>(bs, s'). ((S @ concat bs,
                            average (a + sum_list (map accepted_in bs)) (n + length bs)), s'))
             (speculative_blocks M cfg gamma len fuel S s)"
proof (induction fuel arbitrary: S a n s)
  case 0
  show ?case by (simp add: return_r_def map_outcomes_def)
next
  case (Suc fuel)
  show ?case
  proof (cases "len \<le> length S")
    case True
    then show ?thesis by (simp add: return_r_def map_outcomes_def)
  next
    case False
    let ?step = "speculative_step M cfg (min gamma (len - length S - 1)) S"
    have inner: "speculative_loop M cfg gamma len fuel (S @ e) (a + (length e - 1)) (n + 1) s'
          = map_outcomes
              (\<lambda>(bs, s'). ((S @ concat bs,
                             average (a + sum_list (map accepted_in bs)) (n + length bs)), s'))
              (bind_r (speculative_blocks M cfg gamma len fuel (S @ e))
                 (\<lambda>bs. return_r (e # bs)) s')"
      for e :: "'t list" and s' :: "('p, 'o, 'z) torch_scheme"
      by (simp add: Suc.IH bind_return_map map_outcomes_comp split_def accepted_in_def [of e]
          ac_simps)
    have "speculative_loop M cfg gamma len (Suc fuel) S a n s
          = bind_r ?step (\<lambda>e s'.
              map_outcomes
                (\<lambda>(bs, s'). ((S @ concat bs,
                               average (a + sum_list (map accepted_in bs)) (n + length bs)), s'))
                (bind_r (speculative_blocks M cfg gamma len fuel (S @ e))
                   (\<lambda>bs. return_r (e # bs)) s')) s"
      using False by (simp add: inner [symmetric])
    also have "\<dots> = map_outcomes
             (\<lambda>(bs, s'). ((S @ concat bs,
                            average (a + sum_list (map accepted_in bs)) (n + length bs)), s'))
             (speculative_blocks M cfg gamma len (Suc fuel) S s)"
      using False by (simp add: map_outcomes_bind)
    finally show ?thesis .
  qed
qed

lemma mass_ev: "mass d = ev d (\<lambda>_. 1)"
  by (induction d) (auto simp: mass_def ev_def expect_def)

lemma ev_base_loop_const:
  fixes S :: "'t list" and s :: "('p, 'o, 'z) torch_scheme"
  assumes "\<not> grad_enabled s"
    and "\<And>S. is_pmf (vocab M) (cfg (full_logits M (params s) S))"
  shows "ev (base_loop M cfg n S s) (\<lambda>_. c) = c"
proof (induction n arbitrary: S)
  case 0
  show ?case by (simp add: ev_return)
next
  case (Suc n)
  have "sum_list (map (cfg (full_logits M (params s) S)) (vocab M)) = 1"
    using assms(2) [of S] by (simp add: is_pmf_def)
  then have "sum_list (map (\<lambda>t. cfg (full_logits M (params s) S) t * c) (vocab M)) = c"
    by (simp add: sum_list_mult_const)
  then show ?case
    using assms(1) by (simp add: ev_base_loop_Suc Suc.IH del: base_loop.simps)
qed

lemma mass_base_decode:
  fixes s :: "('p, 'o, 'z) torch_scheme"
  assumes "\<And>S. is_pmf (vocab M) (cfg (full_logits M (params s) S))"
  shows "mass (base_decode M prompt len cfg s) = 1"
proof -
  let ?s = "s\<lparr>grad_enabled := False\<rparr>"
  have "ev (base_loop M cfg (len - length prompt) prompt ?s) (\<lambda>_. 1) = 1"
    by (rule ev_base_loop_const [where M = M and cfg = cfg]) (simp_all add: assms)
  then show ?thesis
    by (simp add: mass_ev base_decode_def ev_no_grad)
qed

lemma mass_speculative_run:
  fixes s :: "('p, 'o, 'z) torch_scheme"
  assumes "\<And>S. is_pmf (vocab M) (cfg (full_logits M (params s) S))"
    and "\<And>S. is_pmf (vocab M) (cfg (early_exit_logits M (params s) S))"
  shows "mass (no_grad (speculative_loop M cfg gamma len (len - length prompt) prompt 0 0) s) = 1"
proof -
  let ?s = "s\<lparr>grad_enabled := False\<rparr>"
  have ng: "\<not> grad_enabled ?s" by simp
  have pf: "is_pmf (vocab M) (cfg (full_logits M (params ?s) S))" for S
    using assms(1) by simp
  have pe: "is_pmf (vocab M) (cfg (early_exit_logits M (params ?s) S))" for S
    using assms(2) by simp
  have "ev (speculative_loop M cfg gamma len (len - length prompt) prompt 0 0 ?s)
          (\<lambda>r. (\<lambda>_. 1) (fst r))
        = ev (base_loop M cfg (len - length prompt) prompt ?s) (\<lambda>_. 1)"
    by (rule speculative_loop_exact [where M = M and cfg = cfg, OF ng pf pe]) simp
  also have "\<dots> = 1"
    by (rule ev_base_loop_const [where M = M and cfg = cfg, OF ng pf])
  finally show ?thesis
    by (simp add: mass_ev ev_no_grad)
qed

lemma positive_mass_run:
  assumes "0 < mass d"
  shows "\<exists>x w. (x, w) \<in> set d \<and> 0 < w"
proof (rule ccontr)
  assume "\<not> ?thesis"
  then have "\<forall>y\<in>set d. snd y \<le> 0" by force
  then have "sum_list (map snd d) \<le> 0"
    by (induction d) auto
  then show False using assms by (simp add: mass_def)
qed

lemma pick_run_returns:
  assumes "0 < mass d"
  shows "\<exists>x w. pick_run d r = Inr x \<and> (x, w) \<in> set d \<and> 0 < w"
proof -
  define ys where "ys = filter (\<lambda>(x, w). 0 < w) d"
  obtain x w where "(x, w) \<in> set d" "0 < w"
    using positive_mass_run [OF assms] by blast
  then have "(x, w) \<in> set ys" by (simp add: ys_def)
  then have ne: "ys \<noteq> []" by auto
  then have "r mod length ys < length ys" by simp
  then have mem: "ys ! (r mod length ys) \<in> set ys" by (rule nth_mem)
  obtain y v where yv: "ys ! (r mod length ys) = (y, v)" by (cases "ys ! (r mod length ys)")
  have "(y, v) \<in> set d" "0 < v"
    using mem yv by (auto simp: ys_def)
  moreover have "pick_run d r = Inr y"
    using ne yv by (auto simp: pick_run_def ys_def [symmetric] split: list.splits)
  ultimately show ?thesis by blast
qed

lemma sample_run_returns:
  fixes s :: "('p, 'o, 'z) torch_scheme"
  assumes "0 < mass (m (s\<lparr>rng_pos := rng_pos s + 1\<rparr>))"
    and "stateless m (s\<lparr>rng_pos := rng_pos s + 1\<rparr>)"
  shows "\<exists>a w. sample_run m s = (Inr a, s\<lparr>rng_pos := rng_pos s + 1\<rparr>)
           \<and> ((a, s\<lparr>rng_pos := rng_pos s + 1\<rparr>), w) \<in> set (m (s\<lparr>rng_pos := rng_pos s + 1\<rparr>))
           \<and> 0 < w"
proof -
  let ?s1 = "s\<lparr>rng_pos := rng_pos s + 1\<rparr>"
  obtain x w where p: "pick_run (m ?s1) (rng s (rng_pos s)) = Inr x"
    and mem: "(x, w) \<in> set (m ?s1)" and w: "0 < w"
    using pick_run_returns [OF assms(1)] by blast
  have "snd x = ?s1"
    using assms(2) mem by (auto simp: stateless_def all_outcomes_def list_all_iff)
  then obtain a where x: "x = (a, ?s1)" by (cases x) auto
  have "sample_run m s = (Inr a, ?s1)"
    using p x by (simp add: sample_run_def bind_es_def draw_def)
  then show ?thesis using mem w x by blast
qed

lemma no_grad_loop_blocks:
  fixes prompt :: "'t list" and s :: "('p, 'o, 'z) torch_scheme"
  shows "no_grad (speculative_loop M cfg gamma len fuel prompt 0 0) s
         = map_outcomes (\<lambda>(bs, s'). (sequence_and_average prompt bs, s'))
             (no_grad (speculative_blocks M cfg gamma len fuel prompt) s)"
  by (simp add: no_grad_def speculative_loop_blocks map_outcomes_def
      sequence_and_average_def split_def comp_def)

lemma all_outcomes_conj:
  "all_outcomes P d \<Longrightarrow> all_outcomes Q d \<Longrightarrow> all_outcomes (\<lambda>x. P x \<and> Q x) d"
  by (auto simp: all_outcomes_def list_all_iff)

lemma all_outcomes_accept_reject_prefix:
  "all_outcomes
     (\<lambda>x. take (accepted_in (fst x)) (fst x)
           = take (accepted_in (fst x)) (map (\<lambda>d. fst (fst d)) triples))
     (accept_reject V triples p_next s)"
proof (induction V triples p_next arbitrary: s rule: accept_reject.induct)
  case (1 V p_next)
  show ?case
    unfolding accept_reject.simps
    by (rule all_outcomes_bind [where P = "\<lambda>x. True"])
      (simp_all add: all_outcomes_multinomial all_outcomes_return accepted_in_def)
next
  case (2 V x q p rest p_next)
  show ?case
    unfolding accept_reject.simps
  proof (rule all_outcomes_bind [where P = "\<lambda>x. True"], goal_cases)
    case 1
    show ?case by (simp add: all_outcomes_bernoulli)
  next
    case (2 accepted s1)
    show ?case
    proof (cases accepted)
      case True
      have "all_outcomes
              (\<lambda>y. take (accepted_in (fst y)) (fst y)
                    = take (accepted_in (fst y)) (map (\<lambda>d. fst (fst d)) (((x, q), p) # rest)))
              (bind_r (accept_reject V rest p_next) (\<lambda>e. return_r (x # e)) s1)"
      proof (rule all_outcomes_bind
          [where P = "\<lambda>y. take (accepted_in (fst y)) (fst y)
                           = take (accepted_in (fst y)) (map (\<lambda>d. fst (fst d)) rest)
                         \<and> 1 \<le> length (fst y) \<and> length (fst y) \<le> length rest + 1"],
          goal_cases)
        case 1
        show ?case
          by (rule all_outcomes_conj [OF "2.IH" [OF True, of s1]
                all_outcomes_accept_reject [of rest V p_next s1]])
      next
        case (2 e s2)
        then have "accepted_in (x # e) = Suc (accepted_in e)"
          by (auto simp: accepted_in_def)
        then show ?case
          using 2 by (simp add: all_outcomes_return)
      qed
      then show ?thesis using True by simp
    next
      case False
      have "all_outcomes
              (\<lambda>y. take (accepted_in (fst y)) (fst y)
                    = take (accepted_in (fst y)) (map (\<lambda>d. fst (fst d)) (((x, q), p) # rest)))
              (bind_r (multinomial V (residual V p q)) (\<lambda>t. return_r [t]) s1)"
        by (rule all_outcomes_bind [where P = "\<lambda>x. True"])
          (simp_all add: all_outcomes_multinomial all_outcomes_return accepted_in_def)
      then show ?thesis using False by simp
    qed
  qed
qed

lemma toy_base_runs:
  fixes s :: "(unit, 'o, 'z) torch_scheme"
  shows "base_decode toy_model [0] 3 as_probabilities s
   = [(([0, 0, 0], s), 9 / 16), (([0, 0, 1], s), 3 / 16),
      (([0, 1, 0], s), 1 / 16), (([0, 1, 1], s), 3 / 16)]"
  by (simp add: base_decode_def no_grad_def bind_r_def return_r_def multinomial_def
      forward_full_def record_graph_def toy_model_def as_probabilities_def
      eval_nat_numeral)

lemma toy_base_decoding:
  "base_decoding toy_script (toy_model, [0], 3) toy_state
   = (Inr [0, 0, 0], toy_state\<lparr>rng_pos := 1\<rparr>)"
  by (simp add: base_decoding_def sample_run_def bind_es_def draw_def pick_run_def
      toy_base_runs toy_script_def toy_state_def)

lemma toy_step:
  fixes s :: "(unit, 'o, 'z) torch_scheme"
  assumes "\<not> grad_enabled s"
  shows "speculative_step toy_model as_probabilities (Suc 0) [0] s
   = [(([0, 0], s), 3 / 8), (([0, 1], s), 1 / 8), (([0], s), 0), (([1], s), 0),
      (([1, 0], s), 1 / 16), (([1, 1], s), 3 / 16), (([0], s), 1 / 4), (([1], s), 0)]"
  using assms
  by (simp add: speculative_step_def bind_r_def return_r_def multinomial_def bernoulli_def
      forward_early_exit_def forward_verify_def accept_prob_def residual_def
      record_graph_def toy_model_def as_probabilities_def eval_nat_numeral)


lemma pick_run_first: "0 < w \<Longrightarrow> pick_run ((x, w) # d) 0 = Inr x"
  by (simp add: pick_run_def)

lemma toy_speculative_runs:
  fixes s :: "(unit, 'o, 'z) torch_scheme"
  shows "\<exists>rest. no_grad (speculative_loop toy_model as_probabilities 2 3 2 [0] 0 0) s
           = ((([0, 0, 0], 1), s), 3 / 8) # rest"
proof -
  let ?s = "s\<lparr>grad_enabled := False\<rparr>"
  have ng: "\<not> grad_enabled ?s" by simp
  have "\<exists>rest. speculative_loop toy_model as_probabilities 2 3 (Suc (Suc 0)) [0] 0 0 ?s
           = ((([0, 0, 0], 1), ?s), 3 / 8) # rest"
    by (simp add: toy_step [OF ng] bind_r_def return_r_def average_def)
  then obtain rest where
    "speculative_loop toy_model as_probabilities 2 3 (Suc (Suc 0)) [0] 0 0 ?s
           = ((([0, 0, 0], 1), ?s), 3 / 8) # rest"
    by blast
  then show ?thesis
    by (simp add: no_grad_def eval_nat_numeral)
qed

lemma toy_speculative_decoding:
  "speculative_decoding_with_same_model toy_script (toy_model, [0], 3, 2) toy_state
   = (Inr ([0, 0, 0], 1), toy_state\<lparr>rng_pos := 1\<rparr>)"
proof -
  obtain rest where
    "no_grad (speculative_loop toy_model as_probabilities 2 3 2 [0] 0 0)
       (toy_state\<lparr>rng_pos := 1\<rparr>)
     = ((([0, 0, 0], 1), toy_state\<lparr>rng_pos := 1\<rparr>), 3 / 8) # rest"
    using toy_speculative_runs [of "toy_state\<lparr>rng_pos := 1\<rparr>"] by blast
  then show ?thesis
    by (simp add: speculative_decoding_with_same_model_def speculative_decode_def
        sample_run_def bind_es_def draw_def pick_run_first toy_script_def toy_state_def)
qed

lemma all_outcomesD: "all_outcomes P d \<Longrightarrow> (x, w) \<in> set d \<Longrightarrow> P x"
  by (auto simp: all_outcomes_def list_all_iff)

lemma map_outcomes_mem:
  "(y, w) \<in> set (map_outcomes f d) \<Longrightarrow> \<exists>x. (x, w) \<in> set d \<and> y = f x"
  by (auto simp: map_outcomes_def)

lemma base_decode_shape:
  fixes s :: "('p, 'o, 'z) torch_scheme" and prompt :: "'t list"
  shows "all_outcomes
           (\<lambda>x. length (fst x) = max len (length prompt)
                 \<and> take (length prompt) (fst x) = prompt)
           (base_decode M prompt len cfg s)"
proof -
  let ?s = "s\<lparr>grad_enabled := False\<rparr>"
  have "all_outcomes
          (\<lambda>x. length (fst x) = length prompt + (len - length prompt)
                \<and> take (length prompt) (fst x) = prompt)
          (base_loop M cfg (len - length prompt) prompt ?s)"
    by (rule all_outcomes_base_loop)
  then have "all_outcomes
          (\<lambda>x. length (fst x) = max len (length prompt)
                \<and> take (length prompt) (fst x) = prompt)
          (base_loop M cfg (len - length prompt) prompt ?s)"
    by (rule all_outcomes_mono) (auto simp: max_def)
  then show ?thesis
    unfolding base_decode_def by (rule all_outcomes_no_grad)
qed

lemma speculative_run_shape:
  fixes s :: "('p, 'o, 'z) torch_scheme" and prompt :: "'t list"
  shows "all_outcomes
           (\<lambda>x. length (fst (fst x)) = max len (length prompt)
                 \<and> take (length prompt) (fst (fst x)) = prompt
                 \<and> 0 \<le> snd (fst x) \<and> snd (fst x) \<le> real gamma)
           (no_grad (speculative_loop M cfg gamma len (len - length prompt) prompt 0 0) s)"
proof -
  let ?s = "s\<lparr>grad_enabled := False\<rparr>"
  have "all_outcomes
          (\<lambda>x. length (fst (fst x)) = max len (length prompt)
                \<and> take (length prompt) (fst (fst x)) = prompt
                \<and> 0 \<le> snd (fst x) \<and> snd (fst x) \<le> real gamma)
          (speculative_loop M cfg gamma len (len - length prompt) prompt 0 0 ?s)"
    by (rule all_outcomes_speculative_loop) simp_all
  then show ?thesis
    by (rule all_outcomes_no_grad
        [where P = "\<lambda>r. length (fst r) = max len (length prompt)
                        \<and> take (length prompt) (fst r) = prompt
                        \<and> 0 \<le> snd r \<and> snd r \<le> real gamma"])
qed

lemma all_outcomes_block:
  "all_outcomes
     (\<lambda>x. fst x \<noteq> []
           \<and> take (accepted_in (fst x)) (fst x)
               = take (accepted_in (fst x)) (map (\<lambda>d. fst (fst d)) triples))
     (accept_reject V triples p_next z)"
proof -
  have "all_outcomes
     (\<lambda>x. (1 \<le> length (fst x) \<and> length (fst x) \<le> length triples + 1)
           \<and> take (accepted_in (fst x)) (fst x)
               = take (accepted_in (fst x)) (map (\<lambda>d. fst (fst d)) triples))
     (accept_reject V triples p_next z)"
    by (rule all_outcomes_conj [OF all_outcomes_accept_reject all_outcomes_accept_reject_prefix])
  then show ?thesis
    by (rule all_outcomes_mono) auto
qed

text \<open>
  C6: the two entry points.  Whenever the model and the sampling configuration give
  probability distributions over the vocabulary and \<open>gamma\<close> is positive:

  \<^item> \<open>base_decode(model, prompt, length, sampling_config)\<close> returns a completed token
    sequence: its runs have total probability 1, and in every run the result has the target
    length (the prompt's, if that is longer) and starts with the prompt;
  \<^item> \<open>speculative_decode(model, prompt, length, gamma, sampling_config)\<close> returns a pair: its
    runs have total probability 1 and are exactly the runs of the block-by-block loop, the
    sequence being the prompt followed by the blocks and the second component the number
    of accepted draft tokens per block; the sequence is completed as for base decoding and
    the average lies between 0 and \<open>gamma\<close>;
  \<^item> at the script's call sites, which pass no sampling configuration, \<open>base_decoding\<close>
    returns a completed sequence and \<open>speculative_decoding_with_same_model\<close> returns the
    pair the script unpacks, of a run of positive probability;
  \<^item> a block is never empty, and all its tokens but the last are the draft tokens, which is
    why the accepted draft tokens of a block are its length less one.
\<close>

theorem decoding_entry_points:
  fixes s :: "('p, 'o, 'z) torch_scheme" and env :: "('p, 'o) script"
  assumes "0 < gamma"
    and "\<And>S. is_pmf (vocab M) (sampling_default env (full_logits M (params s) S))"
    and "\<And>S. is_pmf (vocab M) (sampling_default env (early_exit_logits M (params s) S))"
  shows "(mass (base_decode M prompt len (sampling_default env) s) = 1
          \<and> all_outcomes
              (\<lambda>x. length (fst x) = max len (length prompt)
                    \<and> take (length prompt) (fst x) = prompt)
              (base_decode M prompt len (sampling_default env) s))
         \<and> (\<exists>run. speculative_decode M prompt len gamma (sampling_default env) = Inr run
               \<and> mass (run s) = 1
               \<and> run s = map_outcomes (\<lambda>(bs, s'). (sequence_and_average prompt bs, s'))
                           (no_grad (speculative_blocks M (sampling_default env) gamma len
                                       (len - length prompt) prompt) s)
               \<and> all_outcomes
                   (\<lambda>x. length (fst (fst x)) = max len (length prompt)
                         \<and> take (length prompt) (fst (fst x)) = prompt
                         \<and> 0 \<le> snd (fst x) \<and> snd (fst x) \<le> real gamma)
                   (run s))
         \<and> (\<exists>sampled. base_decoding env (M, prompt, len) s
                          = (Inr sampled, s\<lparr>rng_pos := rng_pos s + 1\<rparr>)
               \<and> length sampled = max len (length prompt)
               \<and> take (length prompt) sampled = prompt)
         \<and> (\<exists>sampled accepted bs w.
               speculative_decoding_with_same_model env (M, prompt, len, gamma) s
                 = (Inr (sampled, accepted), s\<lparr>rng_pos := rng_pos s + 1\<rparr>)
               \<and> length sampled = max len (length prompt)
               \<and> take (length prompt) sampled = prompt
               \<and> 0 \<le> accepted \<and> accepted \<le> real gamma
               \<and> ((bs, s\<lparr>rng_pos := rng_pos s + 1\<rparr>), w)
                   \<in> set (no_grad (speculative_blocks M (sampling_default env) gamma len
                                    (len - length prompt) prompt)
                            (s\<lparr>rng_pos := rng_pos s + 1\<rparr>))
               \<and> 0 < w
               \<and> (sampled, accepted) = sequence_and_average prompt bs)
         \<and> (\<forall>V triples p_next z.
               all_outcomes
                 (\<lambda>x. fst x \<noteq> []
                       \<and> take (accepted_in (fst x)) (fst x)
                           = take (accepted_in (fst x)) (map (\<lambda>d. fst (fst d)) triples))
                 (accept_reject V triples p_next (z :: 'y)))"
proof -
  let ?cfg = "sampling_default env"
  let ?s1 = "s\<lparr>rng_pos := rng_pos s + 1\<rparr>"
  let ?run = "no_grad (speculative_loop M ?cfg gamma len (len - length prompt) prompt 0 0)"
  let ?blocks = "no_grad (speculative_blocks M ?cfg gamma len (len - length prompt) prompt)"
  have pf1: "is_pmf (vocab M) (?cfg (full_logits M (params ?s1) S))" for S
    using assms(2) by simp
  have pe1: "is_pmf (vocab M) (?cfg (early_exit_logits M (params ?s1) S))" for S
    using assms(3) by simp
  have sd: "speculative_decode M prompt len gamma ?cfg = Inr ?run"
    using assms(1) by (simp add: speculative_decode_def)
  have A: "mass (base_decode M prompt len ?cfg s) = 1"
    by (rule mass_base_decode [where M = M and cfg = ?cfg, OF assms(2)])
  have B: "mass (?run s) = 1"
    by (rule mass_speculative_run [where M = M and cfg = ?cfg, OF assms(2) assms(3)])
  have "0 < mass (base_decode M prompt len ?cfg ?s1)"
    using mass_base_decode [where M = M and cfg = ?cfg and s = ?s1, OF pf1] by simp
  then obtain a w where a: "sample_run (base_decode M prompt len ?cfg) s = (Inr a, ?s1)"
    and mem: "((a, ?s1), w) \<in> set (base_decode M prompt len ?cfg ?s1)"
    using sample_run_returns [OF _ stateless_base_decode] by blast
  have "length (fst (a, ?s1)) = max len (length prompt)
        \<and> take (length prompt) (fst (a, ?s1)) = prompt"
    using all_outcomesD [OF base_decode_shape mem] .
  then have C: "\<exists>sampled. base_decoding env (M, prompt, len) s = (Inr sampled, ?s1)
               \<and> length sampled = max len (length prompt)
               \<and> take (length prompt) sampled = prompt"
    using a by (simp add: base_decoding_def)
  have st: "stateless ?run ?s1"
    using stateless_speculative_decode [OF sd] .
  have "0 < mass (?run ?s1)"
    using mass_speculative_run [where M = M and cfg = ?cfg and s = ?s1, OF pf1 pe1] by simp
  then obtain r v where r: "sample_run ?run s = (Inr r, ?s1)"
    and memr: "((r, ?s1), v) \<in> set (?run ?s1)" and v: "0 < v"
    using sample_run_returns [OF _ st] by blast
  have shape: "length (fst (fst (r, ?s1))) = max len (length prompt)
        \<and> take (length prompt) (fst (fst (r, ?s1))) = prompt
        \<and> 0 \<le> snd (fst (r, ?s1)) \<and> snd (fst (r, ?s1)) \<le> real gamma"
    using all_outcomesD [OF speculative_run_shape memr] .
  have "((r, ?s1), v)
        \<in> set (map_outcomes (\<lambda>(bs, s'). (sequence_and_average prompt bs, s')) (?blocks ?s1))"
    using memr by (simp only: no_grad_loop_blocks)
  from map_outcomes_mem [OF this]
  obtain x where x: "(x, v) \<in> set (?blocks ?s1)"
    and rx: "(r, ?s1) = (\<lambda>(bs, s'). (sequence_and_average prompt bs, s')) x"
    by auto
  obtain bs s' where xb: "x = (bs, s')" by (cases x)
  have bs: "((bs, ?s1), v) \<in> set (?blocks ?s1)" and rb: "r = sequence_and_average prompt bs"
    using x rx xb by auto
  have D: "\<exists>sampled accepted bs w.
               speculative_decoding_with_same_model env (M, prompt, len, gamma) s
                 = (Inr (sampled, accepted), ?s1)
               \<and> length sampled = max len (length prompt)
               \<and> take (length prompt) sampled = prompt
               \<and> 0 \<le> accepted \<and> accepted \<le> real gamma
               \<and> ((bs, ?s1), w) \<in> set (?blocks ?s1)
               \<and> 0 < w
               \<and> (sampled, accepted) = sequence_and_average prompt bs"
  proof (intro exI conjI)
    show "speculative_decoding_with_same_model env (M, prompt, len, gamma) s
          = (Inr (fst r, snd r), ?s1)"
      using r by (simp add: speculative_decoding_with_same_model_def sd)
    show "((bs, ?s1), v) \<in> set (?blocks ?s1)" by (rule bs)
    show "0 < v" by (rule v)
    show "(fst r, snd r) = sequence_and_average prompt bs" using rb by simp
  qed (use shape in simp_all)
  have E: "?run s = map_outcomes (\<lambda>(bs, s'). (sequence_and_average prompt bs, s')) (?blocks s)"
    by (rule no_grad_loop_blocks)
  have F: "\<exists>run. speculative_decode M prompt len gamma ?cfg = Inr run
               \<and> mass (run s) = 1
               \<and> run s = map_outcomes (\<lambda>(bs, s'). (sequence_and_average prompt bs, s'))
                           (?blocks s)
               \<and> all_outcomes
                   (\<lambda>x. length (fst (fst x)) = max len (length prompt)
                         \<and> take (length prompt) (fst (fst x)) = prompt
                         \<and> 0 \<le> snd (fst x) \<and> snd (fst x) \<le> real gamma)
                   (run s)"
    by (intro exI [of _ ?run] conjI) (rule sd B E speculative_run_shape)+
  have G: "\<forall>V triples p_next z.
               all_outcomes
                 (\<lambda>x. fst x \<noteq> []
                       \<and> take (accepted_in (fst x)) (fst x)
                           = take (accepted_in (fst x)) (map (\<lambda>d. fst (fst d)) triples))
                 (accept_reject V triples p_next (z :: 'y))"
    by (intro allI) (rule all_outcomes_block)
  show ?thesis
    by (intro conjI) (rule A base_decode_shape F C D G)+
qed

theorem decoding_entry_points_witness:
  "0 < (2::nat)
   \<and> (\<forall>S. is_pmf (vocab toy_model)
            (sampling_default toy_script (full_logits toy_model (params toy_state) S)))
   \<and> (\<forall>S. is_pmf (vocab toy_model)
            (sampling_default toy_script (early_exit_logits toy_model (params toy_state) S)))
   \<and> mass (base_decode toy_model [0] 3 (sampling_default toy_script) toy_state) = 1
   \<and> (\<exists>run. speculative_decode toy_model [0] 3 2 (sampling_default toy_script) = Inr run
         \<and> mass (run toy_state) = 1)
   \<and> base_decoding toy_script (toy_model, [0], 3) toy_state
       = (Inr [0, 0, 0], toy_state\<lparr>rng_pos := 1\<rparr>)
   \<and> speculative_decoding_with_same_model toy_script (toy_model, [0], 3, 2) toy_state
       = (Inr ([0, 0, 0], 1), toy_state\<lparr>rng_pos := 1\<rparr>)
   \<and> sequence_and_average [0] [[0, 0 :: int]] = ([0, 0, 0], 1)"
proof -
  have cfg: "sampling_default toy_script = as_probabilities"
    by (simp add: toy_script_def)
  have pf: "is_pmf (vocab toy_model)
              (sampling_default toy_script (full_logits toy_model (params toy_state) S))" for S
    by (simp add: cfg is_pmf_toy_full)
  have pe: "is_pmf (vocab toy_model)
              (sampling_default toy_script (early_exit_logits toy_model (params toy_state) S))"
    for S
    by (simp add: cfg is_pmf_toy_early)
  have two: "0 < (2::nat)" by simp
  note inst = decoding_entry_points [where gamma = 2 and M = toy_model and env = toy_script
      and s = toy_state and prompt = "[0]" and len = 3, OF two pf pe]
  have A: "mass (base_decode toy_model [0] 3 (sampling_default toy_script) toy_state) = 1"
    using inst by blast
  have B: "\<exists>run. speculative_decode toy_model [0] 3 2 (sampling_default toy_script) = Inr run
         \<and> mass (run toy_state) = 1"
    using inst by blast
  have C: "sequence_and_average [0] [[0, 0 :: int]] = ([0, 0, 0], 1)"
    by (simp add: sequence_and_average_def average_def accepted_in_def)
  show ?thesis
    using two pf pe A B toy_base_decoding toy_speculative_decoding C by blast
qed

section \<open>Properties of the training loop\<close>

lemma next_items_returns:
  fixes s :: "('p, 'o, 'z) torch_scheme"
  assumes "seq_len ds < length (data ds)"
  shows "\<exists>xs. next_items ds index k s = (Inr xs, s\<lparr>rng_pos := rng_pos s + k\<rparr>)
           \<and> length xs = k \<and> list_all (\<lambda>x. length x = seq_len ds + 1) xs"
proof (induction k arbitrary: index s)
  case 0
  show ?case by (simp add: return_es_def)
next
  case (Suc k)
  let ?s1 = "s\<lparr>rng_pos := rng_pos s + 1\<rparr>"
  obtain x where x: "getitem ds (int index) (rng s (rng_pos s)) = Inr x"
    and lx: "length x = seq_len ds + 1"
    using getitem_window [OF assms] by blast
  obtain xs where xs: "next_items ds (Suc index) k ?s1 = (Inr xs, ?s1\<lparr>rng_pos := rng_pos ?s1 + k\<rparr>)"
    and lxs: "length xs = k" "list_all (\<lambda>x. length x = seq_len ds + 1) xs"
    using Suc.IH [of "Suc index" ?s1] by blast
  have "next_items ds index (Suc k) s = (Inr (x # xs), s\<lparr>rng_pos := rng_pos s + Suc k\<rparr>)"
    using x xs by (simp add: bind_es_def draw_def lift_es_def return_es_def)
  then show ?case using lx lxs by simp
qed

lemma next_loader_returns:
  fixes s :: "('p, 'o, 'z) torch_scheme"
  assumes "seq_len ds < length (data ds)" and "0 < seq_len ds"
  shows "\<exists>batch c k. next_loader ds cursor s = (Inr (batch, c), s\<lparr>rng_pos := rng_pos s + k\<rparr>)
           \<and> list_all (\<lambda>x. length x = seq_len ds + 1) batch"
proof -
  define n where "n = length (data ds) div seq_len ds"
  have "seq_len ds \<le> length (data ds)" using assms(1) by simp
  then have n: "0 < n"
    using assms(2) by (simp add: n_def div_greater_zero_iff)
  have len: "len_dataset ds = Inr n"
    using assms(2) by (simp add: len_dataset_def n_def)
  obtain xs where "next_items ds cursor (min BATCH_SIZE (n - cursor)) s
                   = (Inr xs, s\<lparr>rng_pos := rng_pos s + min BATCH_SIZE (n - cursor)\<rparr>)"
    and "list_all (\<lambda>x. length x = seq_len ds + 1) xs"
    using next_items_returns [OF assms(1)] by blast
  then show ?thesis
    using n len by (auto simp: next_loader_def bind_es_def lift_es_def return_es_def)
qed

lemma next_train_returns:
  fixes s :: "('p, 'o, 'z) torch_scheme"
  assumes "SEQ_LEN < length (data_train env)"
  shows "\<exists>batch c k. next_train env s
             = (Inr batch, s\<lparr>rng_pos := rng_pos s + k, train_cursor := c\<rparr>)
           \<and> list_all (\<lambda>x. length x = SEQ_LEN + 1) batch"
proof -
  have "seq_len (train_dataset env) < length (data (train_dataset env))"
    and "0 < seq_len (train_dataset env)"
    using assms by (simp_all add: train_dataset_def SEQ_LEN_def)
  from next_loader_returns [OF this, of "train_cursor s" s]
  obtain batch c k where
    "next_loader (train_dataset env) (train_cursor s) s
       = (Inr (batch, c), s\<lparr>rng_pos := rng_pos s + k\<rparr>)"
    and "list_all (\<lambda>x. length x = seq_len (train_dataset env) + 1) batch"
    by blast
  then show ?thesis
    by (auto simp: next_train_def train_dataset_def)
qed


lemma model_loss_returns:
  fixes s :: "('p, 'o, 'z) torch_scheme"
  assumes "list_all (\<lambda>x. length x = SEQ_LEN + 1) batch"
  shows "\<exists>loss small_loss. model_loss M batch s = (Inr (loss, small_loss), record_graph s)
           \<and> (item loss + item small_loss * EARLY_EXIT_LOSS_WEIGHT) / real GRAD_ACCUM_EVERY
               = micro_loss M (params s) batch
           \<and> (grad_enabled s \<longrightarrow>
                grad_fn (backpropagated loss small_loss) = Some (micro_grad M (params s) batch))
           \<and> item (backpropagated loss small_loss) = micro_loss M (params s) batch
           \<and> item loss = fst (fst (loss_fn M (params s) batch))
           \<and> item small_loss = fst (snd (loss_fn M (params s) batch))"
proof -
  have "\<not> list_ex (\<lambda>x. length x < 2) batch"
    using assms by (auto simp: list_ex_iff list_all_iff SEQ_LEN_def)
  then show ?thesis
    by (auto simp: model_loss_def micro_loss_def micro_grad_def backpropagated_def
        s_div_def s_add_def s_mul_def split: prod.splits)
qed

lemma micro_batch_returns:
  fixes s :: "('p, 'o, 'z) torch_scheme"
  assumes "SEQ_LEN < length (data_train env)" and "grad_enabled s"
  shows "\<exists>batch k c loss small_loss.
           list_all (\<lambda>x. length x = SEQ_LEN + 1) batch
           \<and> micro_batch env s =
               (Inr (loss, small_loss),
                s\<lparr>rng_pos := rng_pos s + k, train_cursor := c,
                  grad := Some (accumulate (grad s) (micro_grad (model env) (params s) batch)),
                  trace := trace s @ [Backward (micro_loss (model env) (params s) batch)]\<rparr>)
           \<and> (item loss + item small_loss * EARLY_EXIT_LOSS_WEIGHT) / real GRAD_ACCUM_EVERY
               = micro_loss (model env) (params s) batch
           \<and> item loss = fst (fst (loss_fn (model env) (params s) batch))
           \<and> item small_loss = fst (snd (loss_fn (model env) (params s) batch))"
proof -
  obtain batch c k where nt: "next_train env s
             = (Inr batch, s\<lparr>rng_pos := rng_pos s + k, train_cursor := c\<rparr>)"
    and lb: "list_all (\<lambda>x. length x = SEQ_LEN + 1) batch"
    using next_train_returns [OF assms(1), of s] by blast
  let ?s1 = "s\<lparr>rng_pos := rng_pos s + k, train_cursor := c\<rparr>"
  have ge: "grad_enabled ?s1" using assms(2) by simp
  obtain loss small_loss where ml: "model_loss (model env) batch ?s1
        = (Inr (loss, small_loss), record_graph ?s1)"
    and v: "(item loss + item small_loss * EARLY_EXIT_LOSS_WEIGHT) / real GRAD_ACCUM_EVERY
               = micro_loss (model env) (params ?s1) batch"
    and g: "grad_fn (backpropagated loss small_loss)
               = Some (micro_grad (model env) (params ?s1) batch)"
    and i: "item (backpropagated loss small_loss) = micro_loss (model env) (params ?s1) batch"
    and il: "item loss = fst (fst (loss_fn (model env) (params ?s1) batch))"
            "item small_loss = fst (snd (loss_fn (model env) (params ?s1) batch))"
    using model_loss_returns [OF lb, of "model env" ?s1] ge by blast
  have "micro_batch env s =
               (Inr (loss, small_loss),
                s\<lparr>rng_pos := rng_pos s + k, train_cursor := c,
                  grad := Some (accumulate (grad s) (micro_grad (model env) (params s) batch)),
                  trace := trace s @ [Backward (micro_loss (model env) (params s) batch)]\<rparr>)"
    using nt ml g i assms(2)
    by (simp add: micro_batch_def bind_es_def backward_def return_es_def record_graph_def)
  then show ?thesis using lb v il by auto
qed

lemma for_range_micro_batch:
  fixes s :: "('p, 'o, 'z) torch_scheme"
  assumes "SEQ_LEN < length (data_train env)" and "grad_enabled s"
  shows "\<exists>bs k c.
           length bs = n
           \<and> list_all (list_all (\<lambda>x. length x = SEQ_LEN + 1)) bs
           \<and> for_range n (micro_batch env) s =
               (Inr (),
                s\<lparr>rng_pos := rng_pos s + k, train_cursor := c,
                  grad := accumulated_from (grad s) (map (micro_grad (model env) (params s)) bs),
                  trace := trace s @ map (\<lambda>b. Backward (micro_loss (model env) (params s) b)) bs\<rparr>)"
  using assms(2)
proof (induction n arbitrary: s)
  case 0
  have "for_range 0 (micro_batch env) s =
               (Inr (),
                s\<lparr>rng_pos := rng_pos s + 0, train_cursor := train_cursor s,
                  grad := accumulated_from (grad s) (map (micro_grad (model env) (params s)) []),
                  trace := trace s @ map (\<lambda>b. Backward (micro_loss (model env) (params s) b)) []\<rparr>)"
    by (simp add: return_es_def)
  then show ?case
    by (intro exI [of _ "[]"] exI [of _ 0] exI [of _ "train_cursor s"]) simp
next
  case (Suc n)
  obtain b k c loss small_loss where lb: "list_all (\<lambda>x. length x = SEQ_LEN + 1) b"
    and mb: "micro_batch env s =
               (Inr (loss, small_loss),
                s\<lparr>rng_pos := rng_pos s + k, train_cursor := c,
                  grad := Some (accumulate (grad s) (micro_grad (model env) (params s) b)),
                  trace := trace s @ [Backward (micro_loss (model env) (params s) b)]\<rparr>)"
    using micro_batch_returns [OF assms(1) Suc.prems] by blast
  let ?s1 = "s\<lparr>rng_pos := rng_pos s + k, train_cursor := c,
                  grad := Some (accumulate (grad s) (micro_grad (model env) (params s) b)),
                  trace := trace s @ [Backward (micro_loss (model env) (params s) b)]\<rparr>"
  have ge: "grad_enabled ?s1" using Suc.prems by simp
  obtain bs k' c' where l: "length bs = n"
    and lbs: "list_all (list_all (\<lambda>x. length x = SEQ_LEN + 1)) bs"
    and fr: "for_range n (micro_batch env) ?s1 =
               (Inr (),
                ?s1\<lparr>rng_pos := rng_pos ?s1 + k', train_cursor := c',
                  grad := accumulated_from (grad ?s1) (map (micro_grad (model env) (params ?s1)) bs),
                  trace := trace ?s1 @ map (\<lambda>b. Backward (micro_loss (model env) (params ?s1) b)) bs\<rparr>)"
    using Suc.IH [OF ge] by blast
  have "for_range (Suc n) (micro_batch env) s =
               (Inr (),
                s\<lparr>rng_pos := rng_pos s + (k + k'), train_cursor := c',
                  grad := accumulated_from (grad s) (map (micro_grad (model env) (params s)) (b # bs)),
                  trace := trace s @ map (\<lambda>b. Backward (micro_loss (model env) (params s) b)) (b # bs)\<rparr>)"
    using mb fr by (simp add: bind_es_def)
  then show ?case
    using l lb lbs
    by (intro exI [of _ "b # bs"] exI [of _ "k + k'"] exI [of _ c']) simp
qed

lemma total_norm_scaled: "total_norm (map (\<lambda>x. x * c) g) = \<bar>c\<bar> * total_norm g"
proof -
  have "sum_list (map (\<lambda>x. x * c * (x * c)) g) = c * c * sum_list (map (\<lambda>x. x * x) g)"
    by (induction g) (simp_all add: algebra_simps)
  then have "total_norm (map (\<lambda>x. x * c) g) = sqrt (c * c * sum_list (map (\<lambda>x. x * x) g))"
    by (simp add: total_norm_def comp_def)
  also have "\<dots> = \<bar>c\<bar> * total_norm g"
    by (simp add: real_sqrt_mult total_norm_def)
  finally show ?thesis .
qed

lemma total_norm_nonneg: "0 \<le> total_norm g"
proof -
  have "0 \<le> sum_list (map (\<lambda>x. x * x) g)"
    by (induction g) simp_all
  then show ?thesis by (simp add: total_norm_def)
qed

lemma clipped_norm:
  assumes "0 \<le> max_norm"
  shows "total_norm (clipped max_norm g) \<le> max_norm
         \<and> total_norm (clipped max_norm g) \<le> total_norm g"
proof -
  define n where "n = total_norm g"
  define c where "c = clip_coef max_norm g"
  have n: "0 \<le> n" by (simp add: n_def total_norm_nonneg)
  have c0: "0 \<le> c" using assms n by (simp add: c_def clip_coef_def n_def [symmetric])
  have c1: "c \<le> 1" by (simp add: c_def clip_coef_def)
  have cm: "c \<le> max_norm / (n + 1 / 1000000)"
    by (simp add: c_def clip_coef_def n_def [symmetric])
  have "c * n \<le> max_norm / (n + 1 / 1000000) * n"
    using cm n by (rule mult_right_mono)
  also have "\<dots> \<le> max_norm"
  proof -
    have "n / (n + 1 / 1000000) \<le> 1" using n by (simp add: field_simps)
    then have "max_norm * (n / (n + 1 / 1000000)) \<le> max_norm * 1"
      using assms by (rule mult_left_mono)
    then show ?thesis by simp
  qed
  finally have a: "c * n \<le> max_norm" .
  have "c * n \<le> 1 * n"
    using c1 n by (rule mult_right_mono)
  then have b: "c * n \<le> n" by simp
  have "total_norm (clipped max_norm g) = c * n"
    using c0 by (simp add: clipped_def total_norm_scaled c_def [symmetric] n_def)
  then show ?thesis using a b by (simp add: n_def)
qed

lemma accumulated_from_Some:
  "gs \<noteq> [] \<Longrightarrow> \<exists>g. accumulated_from acc gs = Some g"
proof (induction gs arbitrary: acc)
  case Nil
  then show ?case by simp
next
  case (Cons g gs)
  show ?case
  proof (cases "gs = []")
    case True
    then show ?thesis by simp
  next
    case False
    then show ?thesis using Cons.IH by simp
  qed
qed

lemma train_step_returns:
  fixes s :: "('p, 'o, 'z) torch_scheme"
  assumes "SEQ_LEN < length (data_train env)" and "grad_enabled s"
  shows "\<exists>bs g k c.
           length bs = GRAD_ACCUM_EVERY
           \<and> list_all (list_all (\<lambda>x. length x = SEQ_LEN + 1)) bs
           \<and> accumulated_from (grad s) (map (micro_grad (model env) (params s)) bs) = Some g
           \<and> train_step env s =
               (Inr (),
                s\<lparr>training := True, rng_pos := rng_pos s + k, train_cursor := c,
                  params := fst (adam env LEARNING_RATE (opt_state s) (params s)
                                  (clipped (1 / 2) g)),
                  opt_state := snd (adam env LEARNING_RATE (opt_state s) (params s)
                                     (clipped (1 / 2) g)),
                  grad := None,
                  trace := trace s
                    @ map (\<lambda>b. Backward (micro_loss (model env) (params s) b)) bs
                    @ [ClipGradNorm (1 / 2), OptimStep, ZeroGrad]\<rparr>)"
proof -
  let ?s0 = "s\<lparr>training := True\<rparr>"
  have ge: "grad_enabled ?s0" using assms(2) by simp
  obtain bs k c where l: "length bs = GRAD_ACCUM_EVERY"
    and lbs: "list_all (list_all (\<lambda>x. length x = SEQ_LEN + 1)) bs"
    and fr: "for_range GRAD_ACCUM_EVERY (micro_batch env) ?s0 =
               (Inr (),
                ?s0\<lparr>rng_pos := rng_pos ?s0 + k, train_cursor := c,
                  grad := accumulated_from (grad ?s0) (map (micro_grad (model env) (params ?s0)) bs),
                  trace := trace ?s0 @ map (\<lambda>b. Backward (micro_loss (model env) (params ?s0) b)) bs\<rparr>)"
    using for_range_micro_batch [OF assms(1) ge, of GRAD_ACCUM_EVERY] by blast
  have "bs \<noteq> []" using l by (auto simp: GRAD_ACCUM_EVERY_def)
  then have "map (micro_grad (model env) (params s)) bs \<noteq> []" by simp
  then obtain g where g: "accumulated_from (grad s) (map (micro_grad (model env) (params s)) bs) = Some g"
    using accumulated_from_Some by blast
  have "train_step env s =
               (Inr (),
                s\<lparr>training := True, rng_pos := rng_pos s + k, train_cursor := c,
                  params := fst (adam env LEARNING_RATE (opt_state s) (params s)
                                  (clipped (1 / 2) g)),
                  opt_state := snd (adam env LEARNING_RATE (opt_state s) (params s)
                                     (clipped (1 / 2) g)),
                  grad := None,
                  trace := trace s
                    @ map (\<lambda>b. Backward (micro_loss (model env) (params s) b)) bs
                    @ [ClipGradNorm (1 / 2), OptimStep, ZeroGrad]\<rparr>)"
    using fr g
    by (simp add: train_step_def bind_es_def set_training_def clip_grad_norm_def
        optim_step_def zero_grad_def clipped_def split: prod.splits)
  then show ?thesis using l lbs g by blast
qed

text \<open>
  C2: the scalar back-propagated in the training loop.  Whenever the training data is
  longer than a sequence and gradients are enabled, the body of the accumulation loop
  returns the pair of losses the model computed for the batch it drew, and the scalar it
  back-propagates is \<open>(full_loss + EARLY_EXIT_LOSS_WEIGHT * early_exit_loss) /
  GRAD_ACCUM_EVERY\<close>, with \<open>EARLY_EXIT_LOSS_WEIGHT = 1\<close> and \<open>GRAD_ACCUM_EVERY = 4\<close>; the
  same combination holds of its gradient.  (Over the reals: the rounding of float32 is not
  modelled.)
\<close>

theorem backpropagated_combined_loss:
  fixes s :: "('p, 'o, 'z) torch_scheme"
  assumes "SEQ_LEN < length (data_train env)" and "grad_enabled s"
  shows "(\<exists>batch loss small_loss s'.
            micro_batch env s = (Inr (loss, small_loss), s')
            \<and> item loss = fst (fst (loss_fn (model env) (params s) batch))
            \<and> item small_loss = fst (snd (loss_fn (model env) (params s) batch))
            \<and> trace s' = trace s
                 @ [Backward ((item loss + EARLY_EXIT_LOSS_WEIGHT * item small_loss)
                              / real GRAD_ACCUM_EVERY)])
         \<and> EARLY_EXIT_LOSS_WEIGHT = 1 \<and> GRAD_ACCUM_EVERY = 4
         \<and> (\<forall>full_loss early_exit_loss.
               item (backpropagated full_loss early_exit_loss)
               = (item full_loss + EARLY_EXIT_LOSS_WEIGHT * item early_exit_loss) / 4)
         \<and> (\<forall>a b da db.
               grad_fn (backpropagated \<lparr>item = a, grad_fn = Some da\<rparr>
                          \<lparr>item = b, grad_fn = Some db\<rparr>)
               = Some (map (\<lambda>x. x / 4)
                         (map2 (+) da (map (\<lambda>x. x * EARLY_EXIT_LOSS_WEIGHT) db))))"
proof -
  obtain batch k c loss small_loss where
    mb: "micro_batch env s =
               (Inr (loss, small_loss),
                s\<lparr>rng_pos := rng_pos s + k, train_cursor := c,
                  grad := Some (accumulate (grad s) (micro_grad (model env) (params s) batch)),
                  trace := trace s @ [Backward (micro_loss (model env) (params s) batch)]\<rparr>)"
    and v: "(item loss + item small_loss * EARLY_EXIT_LOSS_WEIGHT) / real GRAD_ACCUM_EVERY
               = micro_loss (model env) (params s) batch"
    and il: "item loss = fst (fst (loss_fn (model env) (params s) batch))"
            "item small_loss = fst (snd (loss_fn (model env) (params s) batch))"
    using micro_batch_returns [OF assms] by blast
  let ?s' = "s\<lparr>rng_pos := rng_pos s + k, train_cursor := c,
                  grad := Some (accumulate (grad s) (micro_grad (model env) (params s) batch)),
                  trace := trace s @ [Backward (micro_loss (model env) (params s) batch)]\<rparr>"
  have "trace ?s' = trace s
                 @ [Backward ((item loss + EARLY_EXIT_LOSS_WEIGHT * item small_loss)
                              / real GRAD_ACCUM_EVERY)]"
    using v by (simp add: mult.commute)
  then have A: "\<exists>batch loss small_loss s'.
            micro_batch env s = (Inr (loss, small_loss), s')
            \<and> item loss = fst (fst (loss_fn (model env) (params s) batch))
            \<and> item small_loss = fst (snd (loss_fn (model env) (params s) batch))
            \<and> trace s' = trace s
                 @ [Backward ((item loss + EARLY_EXIT_LOSS_WEIGHT * item small_loss)
                              / real GRAD_ACCUM_EVERY)]"
    using mb il by blast
  have B: "EARLY_EXIT_LOSS_WEIGHT = 1 \<and> GRAD_ACCUM_EVERY = 4"
    by (simp add: EARLY_EXIT_LOSS_WEIGHT_def GRAD_ACCUM_EVERY_def)
  have C: "\<forall>full_loss early_exit_loss.
               item (backpropagated full_loss early_exit_loss)
               = (item full_loss + EARLY_EXIT_LOSS_WEIGHT * item early_exit_loss) / 4"
    by (simp add: backpropagated_def s_div_def s_add_def s_mul_def GRAD_ACCUM_EVERY_def
        mult.commute)
  have D: "\<forall>a b da db.
               grad_fn (backpropagated \<lparr>item = a, grad_fn = Some da\<rparr>
                          \<lparr>item = b, grad_fn = Some db\<rparr>)
               = Some (map (\<lambda>x. x / 4)
                         (map2 (+) da (map (\<lambda>x. x * EARLY_EXIT_LOSS_WEIGHT) db)))"
    by (simp add: backpropagated_def s_div_def s_add_def s_mul_def GRAD_ACCUM_EVERY_def)
  show ?thesis
    using A B C D by blast
qed

theorem backpropagated_combined_loss_witness:
  "SEQ_LEN < length (data_train toy_script) \<and> grad_enabled toy_state
   \<and> (\<exists>loss small_loss s'.
         micro_batch toy_script toy_state = (Inr (loss, small_loss), s')
         \<and> item loss = 1 \<and> item small_loss = 2
         \<and> trace s' = [Backward (3 / 4)])"
proof -
  have h1: "SEQ_LEN < length (data_train toy_script)"
    by (simp add: SEQ_LEN_def toy_script_def)
  have h2: "grad_enabled toy_state"
    by (simp add: toy_state_def)
  have "\<exists>batch loss small_loss s'.
            micro_batch toy_script toy_state = (Inr (loss, small_loss), s')
            \<and> item loss = fst (fst (loss_fn (model toy_script) (params toy_state) batch))
            \<and> item small_loss = fst (snd (loss_fn (model toy_script) (params toy_state) batch))
            \<and> trace s' = trace toy_state
                 @ [Backward ((item loss + EARLY_EXIT_LOSS_WEIGHT * item small_loss)
                              / real GRAD_ACCUM_EVERY)]"
    using backpropagated_combined_loss [OF h1 h2] by blast
  then obtain loss small_loss s' where
    "micro_batch toy_script toy_state = (Inr (loss, small_loss), s')"
    "item loss = 1" "item small_loss = 2"
    "trace s' = trace toy_state
                 @ [Backward ((item loss + EARLY_EXIT_LOSS_WEIGHT * item small_loss)
                              / real GRAD_ACCUM_EVERY)]"
    by (auto simp: toy_script_def toy_model_def)
  then have "micro_batch toy_script toy_state = (Inr (loss, small_loss), s')
         \<and> item loss = 1 \<and> item small_loss = 2
         \<and> trace s' = [Backward (3 / 4)]"
    by (simp add: toy_state_def EARLY_EXIT_LOSS_WEIGHT_def GRAD_ACCUM_EVERY_def)
  then show ?thesis
    using h1 h2 by blast
qed

text \<open>
  C4: one training iteration.  Whenever the training data is longer than a sequence,
  gradients are enabled and no gradient is left from before (as at the start and after
  every \<open>zero_grad\<close>), the training part of an iteration returns, and what it does to the
  optimizer is, in this order: exactly \<open>GRAD_ACCUM_EVERY = 4\<close> backward passes, each of a
  micro-batch loss scaled by 1/4 and all at the same parameters; one clipping of the
  gradient norm to 0.5; one optimizer step; one \<open>zero_grad\<close>.  The gradient the optimizer
  steps with is the accumulated gradient of the four micro-batches, clipped, and its norm
  is at most 0.5; no gradient is left afterwards.
\<close>

theorem train_step_accumulates_clips_steps:
  fixes s :: "('p, 'o, 'z) torch_scheme"
  assumes "SEQ_LEN < length (data_train env)" and "grad_enabled s" and "grad s = None"
  shows "\<exists>bs g s'.
           train_step env s = (Inr (), s')
           \<and> length bs = GRAD_ACCUM_EVERY \<and> GRAD_ACCUM_EVERY = 4
           \<and> trace s' = trace s
                @ map (\<lambda>b. Backward (micro_loss (model env) (params s) b)) bs
                @ [ClipGradNorm (1 / 2), OptimStep, ZeroGrad]
           \<and> list_all
                (\<lambda>b. micro_loss (model env) (params s) b
                      = (fst (fst (loss_fn (model env) (params s) b))
                         + fst (snd (loss_fn (model env) (params s) b))) / 4) bs
           \<and> accumulated_from None (map (micro_grad (model env) (params s)) bs) = Some g
           \<and> (params s', opt_state s')
               = adam env LEARNING_RATE (opt_state s) (params s) (clipped (1 / 2) g)
           \<and> total_norm (clipped (1 / 2) g) \<le> 1 / 2
           \<and> grad s' = None
           \<and> grad_enabled s'"
proof -
  obtain bs g k c where l: "length bs = GRAD_ACCUM_EVERY"
    and g: "accumulated_from (grad s) (map (micro_grad (model env) (params s)) bs) = Some g"
    and ts: "train_step env s =
               (Inr (),
                s\<lparr>training := True, rng_pos := rng_pos s + k, train_cursor := c,
                  params := fst (adam env LEARNING_RATE (opt_state s) (params s)
                                  (clipped (1 / 2) g)),
                  opt_state := snd (adam env LEARNING_RATE (opt_state s) (params s)
                                     (clipped (1 / 2) g)),
                  grad := None,
                  trace := trace s
                    @ map (\<lambda>b. Backward (micro_loss (model env) (params s) b)) bs
                    @ [ClipGradNorm (1 / 2), OptimStep, ZeroGrad]\<rparr>)"
    using train_step_returns [OF assms(1) assms(2)] by blast
  have ml: "micro_loss (model env) (params s) b
            = (fst (fst (loss_fn (model env) (params s) b))
               + fst (snd (loss_fn (model env) (params s) b))) / 4" for b
    by (simp add: micro_loss_def split_def EARLY_EXIT_LOSS_WEIGHT_def GRAD_ACCUM_EVERY_def)
  have all: "list_all
                (\<lambda>b. micro_loss (model env) (params s) b
                      = (fst (fst (loss_fn (model env) (params s) b))
                         + fst (snd (loss_fn (model env) (params s) b))) / 4) bs"
    using ml by (simp add: list_all_iff)
  have norm: "total_norm (clipped (1 / 2) g) \<le> 1 / 2"
    using clipped_norm [of "1 / 2" g] by simp
  show ?thesis
  proof (intro exI conjI)
    show "train_step env s = (Inr (),
                s\<lparr>training := True, rng_pos := rng_pos s + k, train_cursor := c,
                  params := fst (adam env LEARNING_RATE (opt_state s) (params s)
                                  (clipped (1 / 2) g)),
                  opt_state := snd (adam env LEARNING_RATE (opt_state s) (params s)
                                     (clipped (1 / 2) g)),
                  grad := None,
                  trace := trace s
                    @ map (\<lambda>b. Backward (micro_loss (model env) (params s) b)) bs
                    @ [ClipGradNorm (1 / 2), OptimStep, ZeroGrad]\<rparr>)"
      by (rule ts)
    show "length bs = GRAD_ACCUM_EVERY" by (rule l)
    show "GRAD_ACCUM_EVERY = 4" by (simp add: GRAD_ACCUM_EVERY_def)
    show "accumulated_from None (map (micro_grad (model env) (params s)) bs) = Some g"
      using g assms(3) by simp
    show "total_norm (clipped (1 / 2) g) \<le> 1 / 2" by (rule norm)
  qed (use all assms(2) in simp_all)
qed

theorem train_step_accumulates_clips_steps_witness:
  "SEQ_LEN < length (data_train toy_script) \<and> grad_enabled toy_state \<and> grad toy_state = None
   \<and> (\<exists>s'. train_step toy_script toy_state = (Inr (), s')
         \<and> trace s' = [Backward (3 / 4), Backward (3 / 4), Backward (3 / 4), Backward (3 / 4),
                        ClipGradNorm (1 / 2), OptimStep, ZeroGrad]
         \<and> grad s' = None)"
proof -
  have h1: "SEQ_LEN < length (data_train toy_script)"
    by (simp add: SEQ_LEN_def toy_script_def)
  have h2: "grad_enabled toy_state" and h3: "grad toy_state = None"
    by (simp_all add: toy_state_def)
  obtain bs s' where ts: "train_step toy_script toy_state = (Inr (), s')"
    and l: "length bs = 4"
    and tr: "trace s' = trace toy_state
                @ map (\<lambda>b. Backward (micro_loss (model toy_script) (params toy_state) b)) bs
                @ [ClipGradNorm (1 / 2), OptimStep, ZeroGrad]"
    and gr: "grad s' = None"
    using train_step_accumulates_clips_steps [OF h1 h2 h3] by auto
  have ml: "micro_loss (model toy_script) (params toy_state) b = 3 / 4" for b
    by (simp add: micro_loss_def toy_script_def toy_model_def EARLY_EXIT_LOSS_WEIGHT_def
        GRAD_ACCUM_EVERY_def)
  have "map (\<lambda>b. Backward (micro_loss (model toy_script) (params toy_state) b)) bs
        = map (\<lambda>b. Backward (3 / 4)) bs"
    by (simp only: ml)
  also have "\<dots> = replicate (length bs) (Backward (3 / 4))"
    by (rule map_replicate_const)
  finally have "map (\<lambda>b. Backward (micro_loss (model toy_script) (params toy_state) b)) bs
             = replicate (length bs) (Backward (3 / 4))" .
  then have "trace s' = [Backward (3 / 4), Backward (3 / 4), Backward (3 / 4), Backward (3 / 4),
                        ClipGradNorm (1 / 2), OptimStep, ZeroGrad]"
    using tr l by (simp add: toy_state_def eval_nat_numeral)
  then show ?thesis
    using h1 h2 h3 ts gr by blast
qed















end
